theory Spec2Isabelle
  imports Main "HOL-Library.Word" "HOL-Library.Sublist"
begin

unbundle bit_operations_syntax

section \<open>The statsd atom importer of the trace processor\<close>

text \<open>
  A shallow embedding of \<^verbatim>\<open>src/trace_processor/importers/proto/statsd_module.cc\<close>:
  the tokenizer that splits a batch of statsd atoms into one forged packet per atom
  (\<^verbatim>\<open>StatsdModule::TokenizePacket\<close>), the parser of a forged packet
  (\<^verbatim>\<open>ParseTracePacketData\<close>, \<^verbatim>\<open>ParseAtom\<close>, \<^verbatim>\<open>GetAtomName\<close>), the schema-less
  decoder \<^verbatim>\<open>ParseGenericEvent\<close> and the \<^verbatim>\<open>InserterDelegate\<close> that turns decoded
  fields into args of a slice.

  Machine integers are words: \<^verbatim>\<open>uint32_t\<close> is \<open>32 word\<close>, \<^verbatim>\<open>int64_t\<close> and
  \<^verbatim>\<open>uint64_t\<close> are both \<open>64 word\<close> (the same bit pattern, read signed by \<open>sint\<close> and
  unsigned by \<open>unat\<close>), so a \<^verbatim>\<open>static_cast\<close> between the two is the identity.
\<close>

subsection \<open>Bytes, strings and formatting\<close>

type_synonym byte = "8 word"
type_synonym ConstBytes = "byte list"
type_synonym uint32 = "32 word"
type_synonym int64 = "64 word"
type_synonym uint64 = "64 word"

text \<open>The conversion \<^verbatim>\<open>%u\<close> of \<^verbatim>\<open>printf\<close>: an unsigned number in decimal.\<close>

definition digit_char :: "nat \<Rightarrow> char" where
  "digit_char d = ''0123456789'' ! d"

function dec :: "nat \<Rightarrow> string" where
  "dec n = (if n < 10 then [digit_char n] else dec (n div 10) @ [digit_char (n mod 10)])"
  by pat_completeness auto
termination
  by (relation "measure (\<lambda>n. n)") auto

declare dec.simps [simp del]

text \<open>
  \<^verbatim>\<open>base::StackString<N>(fmt, ...)\<close> formats into a buffer of \<open>N\<close> bytes, the last
  one kept for the terminator: a longer text is cut after \<open>N - 1\<close> characters.
\<close>

definition StackString :: "nat \<Rightarrow> string \<Rightarrow> string" where
  "StackString N formatted = take (N - 1) formatted"

subsection \<open>The field walker: protozero::ProtoDecoder\<close>

datatype ProtoWireType = kVarInt | kFixed64 | kLengthDelimited | kFixed32

text \<open>
  A \<^verbatim>\<open>protozero::Field\<close>, its members \<^verbatim>\<open>id_\<close>, \<^verbatim>\<open>type_\<close> and \<^verbatim>\<open>int_value_\<close>
  prefixed with the name of the class. A field is valid when its id is not zero. For a
  length-delimited field \<open>Field_data\<close> holds the bytes the field points to; for the other
  wire types \<open>Field_int_value\<close> holds the decoded number (a fixed-width field's bytes,
  little-endian) and \<open>Field_data\<close> is empty, as it is for the invalid field: the size of
  \<^verbatim>\<open>as_bytes()\<close> is 0 there.
\<close>

record Field =
  Field_id :: uint32
  Field_type :: ProtoWireType
  Field_int_value :: uint64
  Field_data :: ConstBytes

definition invalid_Field :: Field where
  "invalid_Field = \<lparr>Field_id = 0, Field_type = kVarInt, Field_int_value = 0, Field_data = []\<rparr>"

definition valid :: "Field \<Rightarrow> bool" where
  "valid f = (Field_id f \<noteq> 0)"

definition as_bytes :: "Field \<Rightarrow> ConstBytes" where
  "as_bytes f = Field_data f"

definition as_int64 :: "Field \<Rightarrow> int64" where
  "as_int64 f = Field_int_value f"

text \<open>
  A \<^verbatim>\<open>double\<close> is kept as the bits it was made from: the 8 bytes of a double,
  or the 4 bytes of a \<^verbatim>\<open>float\<close> that \<^verbatim>\<open>static_cast<double>\<close> widens. The numeric
  value of the widening is not computed.
\<close>

datatype float = float_of_bits "32 word"

datatype double = double_of_bits "64 word" | double_of_float float

definition as_float :: "Field \<Rightarrow> float" where
  "as_float f = float_of_bits (ucast (Field_int_value f))"

definition as_double :: "Field \<Rightarrow> double" where
  "as_double f = double_of_bits (Field_int_value f)"

text \<open>
  Modelled from the spec: \<^verbatim>\<open>protozero::ProtoDecoder\<close> and \<^verbatim>\<open>protozero::Field\<close>
  are not under src/. The spec (sections 2, 6 and 7, and the glossary's wire type)
  takes the walker as a primitive: given a byte span it yields a finite sequence of
  (field number, wire type, raw value) triples of the four wire types, and it stops at
  the first undecodable byte. The walker below reads the protobuf wire encoding: a
  varint tag whose low three bits are the wire type and whose other bits are the
  field number, then a varint (wire type 0), 8 bytes (1), a varint length and that
  many bytes (2), or 4 bytes (5). Anything else, a field number 0 or a value that runs
  past the end of the span gives the invalid field and leaves the read position
  where it was.
\<close>

fun ParseVarInt_loop :: "byte list \<Rightarrow> nat \<Rightarrow> uint64 \<Rightarrow> (uint64 \<times> byte list) option" where
  "ParseVarInt_loop [] shift val = None"
| "ParseVarInt_loop (cur_byte # pos) shift val =
     (if shift < 64 then
        (let val' = val OR push_bit shift (ucast (cur_byte AND 0x7f)) in
         if cur_byte AND 0x80 = 0 then Some (val', pos)
         else ParseVarInt_loop pos (shift + 7) val')
      else None)"

definition ParseVarInt :: "byte list \<Rightarrow> (uint64 \<times> byte list) option" where
  "ParseVarInt start = ParseVarInt_loop start 0 0"

fun little_endian :: "byte list \<Rightarrow> uint64" where
  "little_endian [] = 0"
| "little_endian (b # bs) = ucast b OR push_bit 8 (little_endian bs)"

type_synonym ProtoDecoder = "byte list"

definition ReadField :: "ProtoDecoder \<Rightarrow> Field \<times> ProtoDecoder" where
  "ReadField decoder =
     (case ParseVarInt decoder of
        None \<Rightarrow> (invalid_Field, decoder)
      | Some (preamble, pos) \<Rightarrow>
          (let field_id = (ucast (drop_bit 3 preamble) :: uint32);
               field_type = unat (preamble AND 7)
           in if field_id = 0 then (invalid_Field, decoder)
              else if field_type = 0 then
                (case ParseVarInt pos of
                   None \<Rightarrow> (invalid_Field, decoder)
                 | Some (int_value, new_pos) \<Rightarrow>
                     (\<lparr>Field_id = field_id, Field_type = kVarInt, Field_int_value = int_value, Field_data = []\<rparr>,
                      new_pos))
              else if field_type = 2 then
                (case ParseVarInt pos of
                   None \<Rightarrow> (invalid_Field, decoder)
                 | Some (payload_length, new_pos) \<Rightarrow>
                     if unat payload_length > length new_pos then (invalid_Field, decoder)
                     else
                       (\<lparr>Field_id = field_id, Field_type = kLengthDelimited, Field_int_value = 0,
                         Field_data = take (unat payload_length) new_pos\<rparr>,
                        drop (unat payload_length) new_pos))
              else if field_type = 1 then
                (if length pos < 8 then (invalid_Field, decoder)
                 else
                   (\<lparr>Field_id = field_id, Field_type = kFixed64,
                     Field_int_value = little_endian (take 8 pos), Field_data = []\<rparr>,
                    drop 8 pos))
              else if field_type = 5 then
                (if length pos < 4 then (invalid_Field, decoder)
                 else
                   (\<lparr>Field_id = field_id, Field_type = kFixed32,
                     Field_int_value = little_endian (take 4 pos), Field_data = []\<rparr>,
                    drop 4 pos))
              else (invalid_Field, decoder)))"

subsection \<open>The delegate of the args parser\<close>

record Key =
  flat_key :: string
  key :: string

text \<open>
  \<^verbatim>\<open>util::ProtoToArgsParser::Delegate\<close> is an interface of callbacks that return
  nothing to the decoder, so a decoder is modelled by the calls it makes on its
  delegate, in order. \<open>AddStringChars\<close> is the overload of \<^verbatim>\<open>AddString\<close> that takes
  \<^verbatim>\<open>protozero::ConstChars\<close>.
\<close>

datatype DelegateCall =
    AddInteger Key int64
  | AddUnsignedInteger Key uint64
  | AddStringChars Key string
  | AddString Key string
  | AddDouble Key double
  | AddPointer Key uint64
  | AddBoolean Key bool
  | AddJson Key string
  | AddNull Key
  | AddBytes Key ConstBytes

datatype Status = OkStatus | ErrStatus string

definition ok :: "Status \<Rightarrow> bool" where
  "ok st = (st = OkStatus)"

subsection \<open>ParseGenericEvent\<close>

lemma ParseVarInt_loop_shorter:
  "ParseVarInt_loop xs shift val = Some (v, rest) \<Longrightarrow> length rest < length xs"
  by (induction xs shift val rule: ParseVarInt_loop.induct)
     (auto simp: Let_def split: if_splits)

lemma ParseVarInt_shorter:
  "ParseVarInt xs = Some (v, rest) \<Longrightarrow> length rest < length xs"
  unfolding ParseVarInt_def by (rule ParseVarInt_loop_shorter)

lemma ReadField_shorter:
  assumes "ReadField decoder = (f, decoder')" and "valid f"
  shows "length decoder' < length decoder"
  using assms
  by (auto simp: ReadField_def valid_def invalid_Field_def Let_def
           split: option.splits if_splits prod.splits
           dest!: ParseVarInt_shorter)

text \<open>
  The loop of \<^verbatim>\<open>ParseGenericEvent\<close>: read a field, and while it is valid make the
  delegate call of its wire type and read the next one. \<open>delegate\<close> is the list of
  calls made so far.
\<close>

function ParseGenericEvent_loop :: "ProtoDecoder \<Rightarrow> DelegateCall list \<Rightarrow> DelegateCall list" where
  "ParseGenericEvent_loop decoder delegate =
     (case ReadField decoder of
        (f, decoder') \<Rightarrow>
          if valid f then
            ParseGenericEvent_loop decoder'
              (case Field_type f of
                 kLengthDelimited \<Rightarrow>
                   (let name_str = StackString 64 (''field_'' @ dec (unat (Field_id f)))
                    in delegate @ [AddBytes \<lparr>flat_key = name_str, key = name_str\<rparr> (as_bytes f)])
               | kVarInt \<Rightarrow>
                   (let name_str = StackString 64 (''field_'' @ dec (unat (Field_id f)))
                    in delegate @ [AddInteger \<lparr>flat_key = name_str, key = name_str\<rparr> (as_int64 f)])
               | kFixed32 \<Rightarrow>
                   (let name_str =
                      StackString 64 (''field_'' @ dec (unat (Field_id f)) @ ''_assuming_float'')
                    in delegate @
                       [AddDouble \<lparr>flat_key = name_str, key = name_str\<rparr>
                          (double_of_float (as_float f))])
               | kFixed64 \<Rightarrow>
                   (let name_str =
                      StackString 64 (''field_'' @ dec (unat (Field_id f)) @ ''_assuming_double'')
                    in delegate @
                       [AddDouble \<lparr>flat_key = name_str, key = name_str\<rparr> (as_double f)]))
          else delegate)"
  by pat_completeness auto
termination
  by (relation "measure (\<lambda>(decoder, delegate). length decoder)")
     (auto dest: ReadField_shorter [OF sym])

declare ParseGenericEvent_loop.simps [simp del]

definition ParseGenericEvent :: "ConstBytes \<Rightarrow> Status \<times> DelegateCall list" where
  "ParseGenericEvent cb = (OkStatus, ParseGenericEvent_loop cb [])"

subsection \<open>Storage: interned strings and stats\<close>

type_synonym StringId = nat

definition kNullStringId :: StringId where
  "kNullStringId = 0"

datatype stat = atom_unknown | atom_timestamp_missing

record TraceStorage =
  string_pool :: "string list"
  stats :: "stat \<Rightarrow> nat"

fun find_string :: "string list \<Rightarrow> string \<Rightarrow> nat option" where
  "find_string [] s = None"
| "find_string (x # xs) s = (if x = s then Some 0 else map_option Suc (find_string xs s))"

text \<open>
  Modelled from the spec: \<^verbatim>\<open>TraceStorage\<close> is not under src/. Section 6 gives
  the string interning collaborator as \<open>Intern(text) \<rightarrow> stable identifier\<close>,
  deduplicating and persistent, and the statistics collaborator as counters that are
  incremented. The pool is the list of the strings interned so far; a string's id is
  its position counted from 1, so that no string has the id \<open>kNullStringId\<close>.
\<close>

definition InternString :: "string \<Rightarrow> TraceStorage \<Rightarrow> StringId \<times> TraceStorage" where
  "InternString s st =
     (case find_string (string_pool st) s of
        Some i \<Rightarrow> (Suc i, st)
      | None \<Rightarrow> (Suc (length (string_pool st)), st\<lparr>string_pool := string_pool st @ [s]\<rparr>))"

definition IncrementStats :: "stat \<Rightarrow> TraceStorage \<Rightarrow> TraceStorage" where
  "IncrementStats k st = st\<lparr>stats := (stats st)(k := stats st k + 1)\<rparr>"

subsection \<open>Packets\<close>

text \<open>
  A packet is the message that its generated decoder reads
  (\<^verbatim>\<open>TracePacket::Decoder\<close> and \<^verbatim>\<open>StatsdAtom::Decoder\<close> come from pbzero headers
  that are not under src/): the fields the module uses, a repeated field as the list
  of its entries in order. The bytes of a serialized packet are not modelled, so a
  forged packet is the message \<^verbatim>\<open>TokenizePacket\<close> builds.
\<close>

record StatsdAtom =
  atom :: "ConstBytes list"
  timestamp_nanos :: "int64 list"

record TracePacket =
  timestamp :: "uint64 option"
  statsd_atom :: "StatsdAtom option"

text \<open>
  \<^verbatim>\<open>StatsdAtom::Decoder(decoder.statsd_atom())\<close>: the batch of a packet; a packet
  without the field decodes as the empty batch.
\<close>

definition StatsdAtom_Decoder :: "TracePacket \<Rightarrow> StatsdAtom" where
  "StatsdAtom_Decoder decoder =
     (case statsd_atom decoder of
        None \<Rightarrow> \<lparr>atom = [], timestamp_nanos = []\<rparr>
      | Some a \<Rightarrow> a)"

text \<open>
  \<^verbatim>\<open>TracePacket::kStatsdAtomFieldNumber\<close> comes from the generated header of
  \<^verbatim>\<open>trace_packet.proto\<close>, which is not under src/; no property below depends on
  its value.
\<close>

definition kStatsdAtomFieldNumber :: uint32 where
  "kStatsdAtomFieldNumber = 84"

record PacketSequenceState =
  current_generation :: nat

subsection \<open>The collaborators of the context\<close>

type_synonym TrackSetId = nat
type_synonym TrackId = nat
type_synonym SliceId = nat
type_synonym MachineId = nat

datatype Variadic =
    Variadic_Integer int64
  | Variadic_UnsignedInteger uint64
  | Variadic_String StringId
  | Variadic_Real double
  | Variadic_Pointer uint64
  | Variadic_Boolean bool
  | Variadic_Null

text \<open>An arg of a slice: the slice, the ids of flat key and key, the value.\<close>

type_synonym Arg = "SliceId \<times> StringId \<times> StringId \<times> Variadic"

text \<open>What the sorter is given: timestamp, sequence generation, packet, machine.\<close>

type_synonym SorterEntry = "int64 \<times> nat \<times> TracePacket \<times> MachineId option"

text \<open>
  Modelled from the spec: \<^verbatim>\<open>SliceTracker\<close> and \<^verbatim>\<open>AsyncTrackSetTracker\<close> are not
  under src/. Section 6 gives the lane and scope collaborator as
  \<open>InternLane(name) \<rightarrow> LaneId\<close> and
  \<open>OpenScope(timestamp, LaneId, category, eventName, durationHint) \<rightarrow> ScopeId | absent\<close>
  and says nothing of when a scope is absent. Each tracker therefore keeps the calls
  it has received and answers a call by a function of those and the call, which
  stands for any deterministic tracker.
\<close>

type_synonym ScopedCall = "int64 \<times> TrackId \<times> StringId \<times> StringId \<times> int64"

record SliceTracker =
  scoped_calls :: "(ScopedCall \<times> SliceId option) list"
  scoped_answer :: "(ScopedCall \<times> SliceId option) list \<Rightarrow> ScopedCall \<Rightarrow> SliceId option"

definition SliceTracker_Scoped ::
  "int64 \<Rightarrow> TrackId \<Rightarrow> StringId \<Rightarrow> StringId \<Rightarrow> int64 \<Rightarrow> SliceTracker
   \<Rightarrow> SliceId option \<times> SliceTracker" where
  "SliceTracker_Scoped ts track category nm duration t =
     (let call = (ts, track, category, nm, duration);
          res = scoped_answer t (scoped_calls t) call
      in (res, t\<lparr>scoped_calls := scoped_calls t @ [(call, res)]\<rparr>))"

datatype AsyncCall = InternGlobalTrackSet StringId | Scoped TrackSetId int64 int64

record AsyncTrackSetTracker =
  async_calls :: "AsyncCall list"
  async_answer :: "AsyncCall list \<Rightarrow> AsyncCall \<Rightarrow> nat"

definition AsyncTrackSetTracker_call ::
  "AsyncCall \<Rightarrow> AsyncTrackSetTracker \<Rightarrow> nat \<times> AsyncTrackSetTracker" where
  "AsyncTrackSetTracker_call call t =
     (async_answer t (async_calls t) call, t\<lparr>async_calls := async_calls t @ [call]\<rparr>)"

text \<open>
  The \<^verbatim>\<open>TraceProcessorContext\<close>. Modelled from the spec: \<^verbatim>\<open>TraceSorter\<close> and
  \<^verbatim>\<open>ArgsTracker\<close> are not under src/; section 6 gives the sorter as accepting
  (timestamp, sequence context, serialized envelope) and the attribute sink as
  append-only, so each is the list of what it was given, in order.
\<close>

record TraceProcessorContext =
  storage :: TraceStorage
  sorter :: "SorterEntry list"
  async_track_set_tracker :: AsyncTrackSetTracker
  slice_tracker :: SliceTracker
  args_tracker :: "Arg list"
  machine_id :: "MachineId option"

definition context_InternString ::
  "string \<Rightarrow> TraceProcessorContext \<Rightarrow> StringId \<times> TraceProcessorContext" where
  "context_InternString s c =
     (case InternString s (storage c) of (i, st) \<Rightarrow> (i, c\<lparr>storage := st\<rparr>))"

definition context_IncrementStats :: "stat \<Rightarrow> TraceProcessorContext \<Rightarrow> TraceProcessorContext" where
  "context_IncrementStats k c = c\<lparr>storage := IncrementStats k (storage c)\<rparr>"

definition PushTracePacket ::
  "int64 \<Rightarrow> nat \<Rightarrow> TracePacket \<Rightarrow> MachineId option \<Rightarrow> TraceProcessorContext
   \<Rightarrow> TraceProcessorContext" where
  "PushTracePacket ts generation blob machine c =
     c\<lparr>sorter := sorter c @ [(ts, generation, blob, machine)]\<rparr>"

definition AddArg ::
  "SliceId \<Rightarrow> StringId \<Rightarrow> StringId \<Rightarrow> Variadic \<Rightarrow> TraceProcessorContext
   \<Rightarrow> TraceProcessorContext" where
  "AddArg sl flat_key_id key_id v c =
     c\<lparr>args_tracker := args_tracker c @ [(sl, flat_key_id, key_id, v)]\<rparr>"

subsection \<open>InserterDelegate\<close>

datatype error = CheckFailed | Fatal string | NullPointerDereference

text \<open>
  Every method interns the flat key, then the key, builds the value and adds the arg
  to the slice the inserter is bound to. \<^verbatim>\<open>AddJson\<close> is \<^verbatim>\<open>PERFETTO_FATAL\<close>.
  \<^verbatim>\<open>AddBytes\<close> is not overridden: it is the one of the base class, which is not
  under src/; following the comment above \<^verbatim>\<open>ParseGenericEvent\<close> (only the length of
  a length-delimited field is shown) it adds a string that gives the size.
\<close>

definition add_key_value ::
  "SliceId \<Rightarrow> Key \<Rightarrow> Variadic \<Rightarrow> TraceProcessorContext \<Rightarrow> TraceProcessorContext" where
  "add_key_value sl k v c =
     (case context_InternString (flat_key k) c of
        (flat_key_id, c1) \<Rightarrow>
          (case context_InternString (key k) c1 of
             (key_id, c2) \<Rightarrow> AddArg sl flat_key_id key_id v c2))"

definition add_key_string ::
  "SliceId \<Rightarrow> Key \<Rightarrow> string \<Rightarrow> TraceProcessorContext \<Rightarrow> TraceProcessorContext" where
  "add_key_string sl k s c =
     (case context_InternString (flat_key k) c of
        (flat_key_id, c1) \<Rightarrow>
          (case context_InternString (key k) c1 of
             (key_id, c2) \<Rightarrow>
               (case context_InternString s c2 of
                  (value_id, c3) \<Rightarrow> AddArg sl flat_key_id key_id (Variadic_String value_id) c3)))"

fun InserterDelegate ::
  "SliceId \<Rightarrow> DelegateCall \<Rightarrow> TraceProcessorContext \<Rightarrow> error + TraceProcessorContext" where
  "InserterDelegate sl (AddInteger k v) c = Inr (add_key_value sl k (Variadic_Integer v) c)"
| "InserterDelegate sl (AddUnsignedInteger k v) c =
     Inr (add_key_value sl k (Variadic_UnsignedInteger v) c)"
| "InserterDelegate sl (AddStringChars k v) c = Inr (add_key_string sl k v c)"
| "InserterDelegate sl (AddString k v) c = Inr (add_key_string sl k v c)"
| "InserterDelegate sl (AddDouble k v) c = Inr (add_key_value sl k (Variadic_Real v) c)"
| "InserterDelegate sl (AddPointer k v) c = Inr (add_key_value sl k (Variadic_Pointer v) c)"
| "InserterDelegate sl (AddBoolean k v) c = Inr (add_key_value sl k (Variadic_Boolean v) c)"
| "InserterDelegate sl (AddJson k v) c =
     Inl (Fatal ''Unexpected JSON value when parsing statsd data'')"
| "InserterDelegate sl (AddNull k) c = Inr (add_key_value sl k Variadic_Null c)"
| "InserterDelegate sl (AddBytes k v) c =
     Inr (add_key_string sl k (''<bytes size='' @ dec (length v) @ ''>'') c)"

text \<open>The calls of a decoder reach the delegate one after the other; a fatal one ends the run.\<close>

fun InserterDelegate_calls ::
  "SliceId \<Rightarrow> DelegateCall list \<Rightarrow> TraceProcessorContext \<Rightarrow> error + TraceProcessorContext" where
  "InserterDelegate_calls sl [] c = Inr c"
| "InserterDelegate_calls sl (x # xs) c =
     (case InserterDelegate sl x c of
        Inl e \<Rightarrow> Inl e
      | Inr c' \<Rightarrow> InserterDelegate_calls sl xs c')"

subsection \<open>The descriptor pool\<close>

record FieldDescriptor =
  FieldDescriptor_name :: string

record ProtoDescriptor =
  full_name :: string
  descriptor_fields :: "uint32 \<rightharpoonup> FieldDescriptor"

type_synonym DescriptorPool = "ProtoDescriptor list"

fun FindDescriptorIdx :: "DescriptorPool \<Rightarrow> string \<Rightarrow> nat option" where
  "FindDescriptorIdx [] nm = None"
| "FindDescriptorIdx (d # ds) nm =
     (if full_name d = nm then Some 0 else map_option Suc (FindDescriptorIdx ds nm))"

text \<open>
  \<^verbatim>\<open>PoolAndDescriptor\<close>: the pool and a pointer to the descriptor of the root type,
  which stays null when the pool has no descriptor of that name. The argument
  \<open>loaded\<close> is the pool as \<^verbatim>\<open>AddFromFileDescriptorSet\<close> (not under src/) has filled
  it from the serialized descriptor set.
\<close>

record PoolAndDescriptor =
  descriptor_pool :: DescriptorPool
  descriptor :: "ProtoDescriptor option"

definition PoolAndDescriptor_init :: "DescriptorPool \<Rightarrow> string \<Rightarrow> PoolAndDescriptor" where
  "PoolAndDescriptor_init loaded nm =
     (case FindDescriptorIdx loaded nm of
        Some idx \<Rightarrow> \<lparr>descriptor_pool = loaded, descriptor = Some (loaded ! idx)\<rparr>
      | None \<Rightarrow> \<lparr>descriptor_pool = loaded, descriptor = None\<rparr>)"

definition kAtomProtoName :: string where
  "kAtomProtoName = ''.android.os.statsd.Atom''"

subsection \<open>StatsdModule\<close>

text \<open>
  The members of the module, named as in the source without the closing underscore
  (\<open>trace_context\<close> is \<^verbatim>\<open>context_\<close>). \<open>args_parser\<close> stands for \<^verbatim>\<open>args_parser_.ParseMessage\<close>
  of the \<^verbatim>\<open>util::ProtoToArgsParser\<close> (not under src/) that the constructor binds to
  the pool: from the payload and the name of the message type to the status it
  returns and the calls it makes on its delegate. The delegate's queries
  (\<^verbatim>\<open>GetArrayEntryIndex\<close>, \<^verbatim>\<open>IncrementArrayEntryIndex\<close>, \<^verbatim>\<open>seq_state\<close>,
  \<^verbatim>\<open>GetInternedMessageView\<close>) are constant in \<^verbatim>\<open>InserterDelegate\<close>, so the calls
  do not depend on what the delegate has received.
\<close>

record StatsdModule =
  trace_context :: TraceProcessorContext
  pool :: PoolAndDescriptor
  args_parser :: "ConstBytes \<Rightarrow> string \<Rightarrow> Status \<times> DelegateCall list"
  atom_names :: "uint32 \<rightharpoonup> StringId"
  track_set_id :: "TrackSetId option"

definition StatsdModule_init ::
  "TraceProcessorContext \<Rightarrow> DescriptorPool
   \<Rightarrow> (ConstBytes \<Rightarrow> string \<Rightarrow> Status \<times> DelegateCall list) \<Rightarrow> StatsdModule" where
  "StatsdModule_init c kAtomsDescriptor parser =
     \<lparr>trace_context = c,
      pool = PoolAndDescriptor_init kAtomsDescriptor kAtomProtoName,
      args_parser = parser,
      atom_names = Map.empty,
      track_set_id = None\<rparr>"

definition module_InternString :: "string \<Rightarrow> StatsdModule \<Rightarrow> StringId \<times> StatsdModule" where
  "module_InternString s m =
     (case context_InternString s (trace_context m) of (i, c) \<Rightarrow> (i, m\<lparr>trace_context := c\<rparr>))"

definition module_IncrementStats :: "stat \<Rightarrow> StatsdModule \<Rightarrow> StatsdModule" where
  "module_IncrementStats k m = m\<lparr>trace_context := context_IncrementStats k (trace_context m)\<rparr>"

datatype ModuleResult = Ignored | Handled | Error string

fun TokenizePacket_loop ::
  "ConstBytes list \<Rightarrow> int64 list \<Rightarrow> int64 \<Rightarrow> PacketSequenceState \<Rightarrow> TraceProcessorContext
   \<Rightarrow> TraceProcessorContext" where
  "TokenizePacket_loop [] it_timestamps packet_timestamp state c = c"
| "TokenizePacket_loop (it # rest) it_timestamps packet_timestamp state c =
     (case (case it_timestamps of
              t # ts \<Rightarrow> (t, ts, c)
            | [] \<Rightarrow> (packet_timestamp, [], context_IncrementStats atom_timestamp_missing c)) of
        (atom_timestamp, it_timestamps', c1) \<Rightarrow>
          (let forged = \<lparr>timestamp = Some atom_timestamp,
                          statsd_atom = Some \<lparr>atom = [it], timestamp_nanos = []\<rparr>\<rparr>
           in TokenizePacket_loop rest it_timestamps' packet_timestamp state
                (PushTracePacket atom_timestamp (current_generation state) forged
                   (machine_id c1) c1)))"

definition TokenizePacket ::
  "TracePacket \<Rightarrow> int64 \<Rightarrow> PacketSequenceState \<Rightarrow> uint32 \<Rightarrow> StatsdModule
   \<Rightarrow> ModuleResult \<times> StatsdModule" where
  "TokenizePacket decoder packet_timestamp state field_id m =
     (if field_id \<noteq> kStatsdAtomFieldNumber then (Ignored, m)
      else
        (let atoms_wrapper = StatsdAtom_Decoder decoder
         in (Handled,
             m\<lparr>trace_context :=
                 TokenizePacket_loop (atom atoms_wrapper) (timestamp_nanos atoms_wrapper)
                   packet_timestamp state (trace_context m)\<rparr>)))"

definition GetAtomName :: "uint32 \<Rightarrow> StatsdModule \<Rightarrow> StringId \<times> StatsdModule" where
  "GetAtomName atom_field_id m =
     (case atom_names m atom_field_id of
        None \<Rightarrow>
          (case descriptor (pool m) of
             None \<Rightarrow>
               module_InternString ''Could not load atom descriptor''
                 (module_IncrementStats atom_unknown m)
           | Some d \<Rightarrow>
               (case (case descriptor_fields d atom_field_id of
                        None \<Rightarrow>
                          module_InternString
                            (StackString 255 (''atom_'' @ dec (unat atom_field_id))) m
                      | Some field \<Rightarrow> module_InternString (FieldDescriptor_name field) m) of
                  (name_id, m1) \<Rightarrow>
                    (name_id, m1\<lparr>atom_names := (atom_names m1)(atom_field_id \<mapsto> name_id)\<rparr>)))
      | Some cached_name \<Rightarrow> (cached_name, m))"

definition InternAsyncTrackSetId :: "StatsdModule \<Rightarrow> TrackSetId \<times> StatsdModule" where
  "InternAsyncTrackSetId m =
     (case track_set_id m of
        None \<Rightarrow>
          (case module_InternString ''Statsd Atoms'' m of
             (nm, m1) \<Rightarrow>
               (case AsyncTrackSetTracker_call (InternGlobalTrackSet nm)
                       (async_track_set_tracker (trace_context m1)) of
                  (i, t) \<Rightarrow>
                    (i, m1\<lparr>trace_context := (trace_context m1)\<lparr>async_track_set_tracker := t\<rparr>,
                            track_set_id := Some i\<rparr>)))
      | Some i \<Rightarrow> (i, m))"

text \<open>
  \<^verbatim>\<open>ParseAtom\<close>. After the scope is open, \<^verbatim>\<open>pool_.descriptor()->fields()\<close>
  dereferences the descriptor pointer without a test: with a null descriptor the
  run ends there, which the model returns as \<open>NullPointerDereference\<close>.
\<close>

definition ParseAtom :: "int64 \<Rightarrow> ConstBytes \<Rightarrow> StatsdModule \<Rightarrow> error + StatsdModule" where
  "ParseAtom ts nested_bytes m =
     (case ReadField nested_bytes of
        (field, nested_decoder) \<Rightarrow>
          (let nested_field_id = (if valid field then Field_id field else 0) in
           case GetAtomName nested_field_id m of
             (atom_name, m1) \<Rightarrow>
               (case InternAsyncTrackSetId m1 of
                  (track_set, m2) \<Rightarrow>
                    (case AsyncTrackSetTracker_call (Scoped track_set ts 0)
                            (async_track_set_tracker (trace_context m2)) of
                       (track, at) \<Rightarrow>
                         (case SliceTracker_Scoped ts track kNullStringId atom_name 0
                                 (slice_tracker (trace_context m2)) of
                            (opt_slice, st) \<Rightarrow>
                              (let m3 = m2\<lparr>trace_context :=
                                          (trace_context m2)\<lparr>async_track_set_tracker := at,
                                                               slice_tracker := st\<rparr>\<rparr>
                               in case opt_slice of
                                    None \<Rightarrow> Inr m3
                                  | Some sl \<Rightarrow>
                                      (case descriptor (pool m3) of
                                         None \<Rightarrow> Inl NullPointerDereference
                                       | Some d \<Rightarrow>
                                           (let (m4, status, calls) =
                                              (case descriptor_fields d nested_field_id of
                                                 None \<Rightarrow>
                                                   (case ParseGenericEvent (as_bytes field) of
                                                      (status, calls) \<Rightarrow>
                                                        (if nested_field_id < 100000
                                                         then module_IncrementStats atom_unknown m3
                                                         else m3,
                                                         status, calls))
                                               | Some field_it \<Rightarrow>
                                                   (case args_parser m3 nested_bytes kAtomProtoName of
                                                      (status, calls) \<Rightarrow> (m3, status, calls)))
                                            in case InserterDelegate_calls sl calls (trace_context m4) of
                                                 Inl e \<Rightarrow> Inl e
                                               | Inr c \<Rightarrow>
                                                   (let m5 = m4\<lparr>trace_context := c\<rparr>
                                                    in if \<not> ok status
                                                       then Inr (module_IncrementStats atom_unknown m5)
                                                       else Inr m5)))))))))"

definition ParseTracePacketData ::
  "TracePacket \<Rightarrow> int64 \<Rightarrow> uint32 \<Rightarrow> StatsdModule \<Rightarrow> error + StatsdModule" where
  "ParseTracePacketData decoder ts field_id m =
     (if field_id \<noteq> kStatsdAtomFieldNumber then Inr m
      else
        (case atom (StatsdAtom_Decoder decoder) of
           [] \<Rightarrow> Inl CheckFailed
         | it # rest \<Rightarrow>
             (case ParseAtom ts it m of
                Inl e \<Rightarrow> Inl e
              | Inr m' \<Rightarrow> if rest \<noteq> [] then Inl CheckFailed else Inr m')))"

section \<open>Specification functions\<close>

subsection \<open>Generic inference\<close>

text \<open>
  The fields that successive calls of \<^verbatim>\<open>ReadField\<close> yield on a span, up to the
  first invalid one.
\<close>

function ReadFields :: "ProtoDecoder \<Rightarrow> Field list" where
  "ReadFields decoder =
     (case ReadField decoder of
        (f, decoder') \<Rightarrow> if valid f then f # ReadFields decoder' else [])"
  by pat_completeness auto
termination
  by (relation "measure length") (auto dest: ReadField_shorter [OF sym])

declare ReadFields.simps [simp del]

text \<open>
  The naming policy of the generic field inferencer in the words of the spec
  (section 4.2): a key is unqualified, flat key and key are the bare name; a
  length-delimited field \<open>N\<close> is \<open>field_N\<close> with its raw bytes, a varint field is
  \<open>field_N\<close> with a 64-bit integer, a 4-byte field is \<open>field_N_assuming_float\<close> with
  the double that widens the float of these bytes, an 8-byte field is
  \<open>field_N_assuming_double\<close> with the double of these bytes.
\<close>

definition unqualified :: "string \<Rightarrow> Key" where
  "unqualified s = \<lparr>flat_key = s, key = s\<rparr>"

definition spec_Infer_field :: "Field \<Rightarrow> DelegateCall" where
  "spec_Infer_field f =
     (case Field_type f of
        kLengthDelimited \<Rightarrow>
          AddBytes (unqualified (''field_'' @ dec (unat (Field_id f)))) (Field_data f)
      | kVarInt \<Rightarrow>
          AddInteger (unqualified (''field_'' @ dec (unat (Field_id f)))) (Field_int_value f)
      | kFixed32 \<Rightarrow>
          AddDouble (unqualified (''field_'' @ dec (unat (Field_id f)) @ ''_assuming_float''))
            (double_of_float (float_of_bits (ucast (Field_int_value f))))
      | kFixed64 \<Rightarrow>
          AddDouble (unqualified (''field_'' @ dec (unat (Field_id f)) @ ''_assuming_double''))
            (double_of_bits (Field_int_value f)))"

fun call_key :: "DelegateCall \<Rightarrow> Key" where
  "call_key (AddInteger k v) = k"
| "call_key (AddUnsignedInteger k v) = k"
| "call_key (AddStringChars k v) = k"
| "call_key (AddString k v) = k"
| "call_key (AddDouble k v) = k"
| "call_key (AddPointer k v) = k"
| "call_key (AddBoolean k v) = k"
| "call_key (AddJson k v) = k"
| "call_key (AddNull k) = k"
| "call_key (AddBytes k v) = k"

subsection \<open>Fan-out\<close>

text \<open>
  The packet that \<^verbatim>\<open>TokenizePacket\<close> forges for one atom: the timestamp and a batch
  that holds this atom alone.
\<close>

definition forged_packet :: "ConstBytes \<Rightarrow> int64 \<Rightarrow> TracePacket" where
  "forged_packet payload ts =
     \<lparr>timestamp = Some ts, statsd_atom = Some \<lparr>atom = [payload], timestamp_nanos = []\<rparr>\<rparr>"

text \<open>
  The timestamp policy in the words of the spec (section 4.4): payload \<open>i\<close> takes
  explicit timestamp \<open>i\<close> while the explicit sequence has one, and the record's
  timestamp otherwise.
\<close>

definition spec_timestamp :: "int64 list \<Rightarrow> int64 \<Rightarrow> nat \<Rightarrow> int64" where
  "spec_timestamp explicit recordTimestamp i =
     (if i < length explicit then explicit ! i else recordTimestamp)"

text \<open>A context in which the counter \<open>k\<close> has been incremented \<open>n\<close> times.\<close>

definition count_stats :: "stat \<Rightarrow> nat \<Rightarrow> TraceProcessorContext \<Rightarrow> TraceProcessorContext" where
  "count_stats k n c =
     c\<lparr>storage := (storage c)\<lparr>stats := (stats (storage c))(k := stats (storage c) k + n)\<rparr>\<rparr>"

subsection \<open>Interned strings and args\<close>

text \<open>
  The id a string has in a pool (0 when it is not there), and the pool after
  interning a string.
\<close>

definition string_id :: "string list \<Rightarrow> string \<Rightarrow> StringId" where
  "string_id P s = (case find_string P s of Some i \<Rightarrow> Suc i | None \<Rightarrow> 0)"

definition intern_pool :: "string \<Rightarrow> string list \<Rightarrow> string list" where
  "intern_pool s P = (if s \<in> set P then P else P @ [s])"

text \<open>
  The strings a delegate call makes \<^verbatim>\<open>InserterDelegate\<close> intern, in order, the pool
  after one call and after a list of calls, and the arg the call adds to a slice, read
  in a pool that holds these strings.
\<close>

fun call_strings :: "DelegateCall \<Rightarrow> string list" where
  "call_strings (AddStringChars k v) = [flat_key k, key k, v]"
| "call_strings (AddString k v) = [flat_key k, key k, v]"
| "call_strings (AddBytes k v) = [flat_key k, key k, ''<bytes size='' @ dec (length v) @ ''>'']"
| "call_strings c = [flat_key (call_key c), key (call_key c)]"

fun call_value :: "string list \<Rightarrow> DelegateCall \<Rightarrow> Variadic" where
  "call_value P (AddInteger k v) = Variadic_Integer v"
| "call_value P (AddUnsignedInteger k v) = Variadic_UnsignedInteger v"
| "call_value P (AddStringChars k v) = Variadic_String (string_id P v)"
| "call_value P (AddString k v) = Variadic_String (string_id P v)"
| "call_value P (AddDouble k v) = Variadic_Real v"
| "call_value P (AddPointer k v) = Variadic_Pointer v"
| "call_value P (AddBoolean k v) = Variadic_Boolean v"
| "call_value P (AddJson k v) = Variadic_Null"
| "call_value P (AddNull k) = Variadic_Null"
| "call_value P (AddBytes k v) =
     Variadic_String (string_id P (''<bytes size='' @ dec (length v) @ ''>''))"

definition call_arg :: "string list \<Rightarrow> SliceId \<Rightarrow> DelegateCall \<Rightarrow> Arg" where
  "call_arg P sl c =
     (sl, string_id P (flat_key (call_key c)), string_id P (key (call_key c)), call_value P c)"

fun is_AddJson :: "DelegateCall \<Rightarrow> bool" where
  "is_AddJson (AddJson k v) = True"
| "is_AddJson c = False"

definition with_pool :: "string list \<Rightarrow> TraceProcessorContext \<Rightarrow> TraceProcessorContext" where
  "with_pool P c = c\<lparr>storage := (storage c)\<lparr>string_pool := P\<rparr>\<rparr>"

definition call_pool :: "DelegateCall \<Rightarrow> string list \<Rightarrow> string list" where
  "call_pool c P = fold intern_pool (call_strings c) P"

definition calls_pool :: "DelegateCall list \<Rightarrow> string list \<Rightarrow> string list" where
  "calls_pool xs P = fold call_pool xs P"

subsection \<open>Dispatch\<close>

text \<open>
  The variant tag of a payload in the words of the spec (section 4.5): the number of
  the first field, 0 when there is none. It is the \<open>nested_field_id\<close> of
  \<^verbatim>\<open>ParseAtom\<close>.
\<close>

definition first_field_id :: "ConstBytes \<Rightarrow> uint32" where
  "first_field_id nested_bytes =
     (case ReadField nested_bytes of (field, rest) \<Rightarrow> if valid field then Field_id field else 0)"

text \<open>
  The part of \<^verbatim>\<open>ParseAtom\<close> up to the opening of the scope (lines 281 to 292 of
  the source): the name of the atom, the track set, the track, and the call of
  \<^verbatim>\<open>slice_tracker->Scoped\<close>. It returns the answer of the slice tracker and the
  module at that point.
\<close>

definition ParseAtom_open_scope ::
  "int64 \<Rightarrow> ConstBytes \<Rightarrow> StatsdModule \<Rightarrow> SliceId option \<times> StatsdModule" where
  "ParseAtom_open_scope ts nested_bytes m =
     (case GetAtomName (first_field_id nested_bytes) m of
        (atom_name, m1) \<Rightarrow>
          (case InternAsyncTrackSetId m1 of
             (track_set, m2) \<Rightarrow>
               (case AsyncTrackSetTracker_call (Scoped track_set ts 0)
                       (async_track_set_tracker (trace_context m2)) of
                  (track, at) \<Rightarrow>
                    (case SliceTracker_Scoped ts track kNullStringId atom_name 0
                            (slice_tracker (trace_context m2)) of
                       (opt_slice, st) \<Rightarrow>
                         (opt_slice,
                          m2\<lparr>trace_context :=
                               (trace_context m2)\<lparr>async_track_set_tracker := at,
                                                    slice_tracker := st\<rparr>\<rparr>)))))"

text \<open>
  The status and the delegate calls of the decoder that \<^verbatim>\<open>ParseAtom\<close> runs once the
  scope is open: the generic one on the bytes of the first field when the descriptor
  does not have the tag, the args parser on the payload when it has. \<open>count_unknown\<close>
  is the conditional increment of \<open>atom_unknown\<close>.
\<close>

definition atom_calls ::
  "ProtoDescriptor \<Rightarrow> (ConstBytes \<Rightarrow> string \<Rightarrow> Status \<times> DelegateCall list) \<Rightarrow> ConstBytes
   \<Rightarrow> Status \<times> DelegateCall list" where
  "atom_calls d parser nested_bytes =
     (case descriptor_fields d (first_field_id nested_bytes) of
        None \<Rightarrow> ParseGenericEvent (as_bytes (fst (ReadField nested_bytes)))
      | Some field_it \<Rightarrow> parser nested_bytes kAtomProtoName)"

definition count_unknown :: "bool \<Rightarrow> StatsdModule \<Rightarrow> StatsdModule" where
  "count_unknown b m = (if b then module_IncrementStats atom_unknown m else m)"

text \<open>
  Observations of a module: the counter \<open>atom_unknown\<close>, the string pool, the args;
  whether the catalog resolves a tag; the args added between two states, without
  their slice; the counter after a run that returned.
\<close>

definition unknown_count :: "StatsdModule \<Rightarrow> nat" where
  "unknown_count m = stats (storage (trace_context m)) atom_unknown"

definition module_pool :: "StatsdModule \<Rightarrow> string list" where
  "module_pool m = string_pool (storage (trace_context m))"

definition module_args :: "StatsdModule \<Rightarrow> Arg list" where
  "module_args m = args_tracker (trace_context m)"

definition resolvable :: "StatsdModule \<Rightarrow> uint32 \<Rightarrow> bool" where
  "resolvable m tag =
     (case descriptor (pool m) of None \<Rightarrow> False | Some d \<Rightarrow> descriptor_fields d tag \<noteq> None)"

definition attributes_since ::
  "StatsdModule \<Rightarrow> StatsdModule \<Rightarrow> (StringId \<times> StringId \<times> Variadic) list" where
  "attributes_since m m' = map snd (drop (length (module_args m)) (module_args m'))"

definition unknown_count_after :: "error + StatsdModule \<Rightarrow> nat option" where
  "unknown_count_after r = (case r of Inl e \<Rightarrow> None | Inr m \<Rightarrow> Some (unknown_count m))"

text \<open>
  A sequence of dispatches, each \<^verbatim>\<open>ParseAtom\<close> on the module the one before has
  left; a fatal one ends the run.
\<close>

fun ParseAtoms :: "(int64 \<times> ConstBytes) list \<Rightarrow> StatsdModule \<Rightarrow> error + StatsdModule" where
  "ParseAtoms [] m = Inr m"
| "ParseAtoms ((ts, nested_bytes) # evs) m =
     (case ParseAtom ts nested_bytes m of
        Inl e \<Rightarrow> Inl e
      | Inr m' \<Rightarrow> ParseAtoms evs m')"

subsection \<open>Example modules\<close>

text \<open>
  A context whose trackers answer every call, a catalog whose root type has the one
  field 42 named \<open>Foo\<close>, and an args parser that reports the size of the payload;
  then the module on them, the module whose catalog lacks the root type, and the
  same two with a slice tracker that never opens a scope.
\<close>

definition example_context :: TraceProcessorContext where
  "example_context =
     \<lparr>storage = \<lparr>string_pool = [], stats = (\<lambda>k. 0)\<rparr>,
      sorter = [],
      async_track_set_tracker = \<lparr>async_calls = [], async_answer = (\<lambda>h c. length h)\<rparr>,
      slice_tracker = \<lparr>scoped_calls = [], scoped_answer = (\<lambda>h c. Some (length h))\<rparr>,
      args_tracker = [],
      machine_id = None\<rparr>"

definition example_descriptors :: DescriptorPool where
  "example_descriptors =
     [\<lparr>full_name = ''.android.os.statsd.Atom'',
       descriptor_fields = [42 \<mapsto> \<lparr>FieldDescriptor_name = ''Foo''\<rparr>]\<rparr>]"

definition example_parser :: "ConstBytes \<Rightarrow> string \<Rightarrow> Status \<times> DelegateCall list" where
  "example_parser payload type_name =
     (OkStatus, [AddUnsignedInteger (unqualified ''Foo.size'') (of_nat (length payload))])"

definition example_module :: StatsdModule where
  "example_module = StatsdModule_init example_context example_descriptors example_parser"

definition example_module_no_catalog :: StatsdModule where
  "example_module_no_catalog = StatsdModule_init example_context [] example_parser"

definition example_module_no_scope :: StatsdModule where
  "example_module_no_scope =
     StatsdModule_init
       (example_context\<lparr>slice_tracker := \<lparr>scoped_calls = [], scoped_answer = (\<lambda>h c. None)\<rparr>\<rparr>)
       example_descriptors example_parser"

definition example_module_no_catalog_no_scope :: StatsdModule where
  "example_module_no_catalog_no_scope =
     StatsdModule_init
       (example_context\<lparr>slice_tracker := \<lparr>scoped_calls = [], scoped_answer = (\<lambda>h c. None)\<rparr>\<rparr>)
       [] example_parser"

lemmas run_defs = ParseAtom_def GetAtomName_def InternAsyncTrackSetId_def
  AsyncTrackSetTracker_call_def SliceTracker_Scoped_def module_InternString_def
  module_IncrementStats_def context_InternString_def context_IncrementStats_def
  InternString_def IncrementStats_def StatsdModule_init_def PoolAndDescriptor_init_def
  kAtomProtoName_def example_module_def example_module_no_catalog_def
  example_module_no_scope_def example_module_no_catalog_no_scope_def example_context_def
  example_descriptors_def example_parser_def ReadField_def ParseVarInt_def valid_def
  invalid_Field_def Let_def kNullStringId_def

lemmas eval_defs = run_defs first_field_id_def ParseAtom_open_scope_def ParseGenericEvent_def
  ParseGenericEvent_loop.simps as_bytes_def as_int64_def StackString_def dec.simps
  digit_char_def add_key_value_def add_key_string_def AddArg_def ok_def unqualified_def
  module_args_def module_pool_def unknown_count_def attributes_since_def

section \<open>Properties\<close>

subsection \<open>The generic inference of fields\<close>

lemma length_dec_le: "0 < k \<Longrightarrow> n < 10 ^ k \<Longrightarrow> length (dec n) \<le> k"
proof (induction k arbitrary: n)
  case 0
  then show ?case by simp
next
  case (Suc k)
  show ?case
  proof (cases "n < 10")
    case True
    then show ?thesis by (simp add: dec.simps [of n])
  next
    case False
    then have k: "0 < k" using Suc.prems by (cases k) auto
    have "n div 10 < 10 ^ k" using Suc.prems by (simp add: less_mult_imp_div_less mult.commute)
    from Suc.IH [OF k this] False show ?thesis by (simp add: dec.simps [of n])
  qed
qed

lemma length_dec_uint32: "length (dec (unat (w :: uint32))) \<le> 10"
proof -
  have "unat w < 2 ^ 32" using unsigned_less [of w] by simp
  then have "unat w < 10 ^ 10" by simp
  then show ?thesis using length_dec_le [of 10] by simp
qed

lemma ParseGenericEvent_loop_eq:
  "ParseGenericEvent_loop decoder delegate = delegate @ map spec_Infer_field (ReadFields decoder)"
proof (induction decoder delegate rule: ParseGenericEvent_loop.induct)
  case (1 decoder delegate)
  obtain f decoder' where rf: "ReadField decoder = (f, decoder')" by (cases "ReadField decoder")
  show ?case
  proof (cases "valid f")
    case True
    have len: "length (dec (unat (Field_id f))) \<le> 10" by (rule length_dec_uint32)
    have fs: "ReadFields decoder = f # ReadFields decoder'"
      by (subst ReadFields.simps) (simp add: rf True)
    show ?thesis
      apply (subst ParseGenericEvent_loop.simps)
      apply (simp only: rf prod.case True if_True "1.IH" [OF rf [symmetric] True] fs)
      using len
      apply (cases "Field_type f")
      apply (simp_all add: spec_Infer_field_def unqualified_def StackString_def Let_def
            as_bytes_def as_int64_def as_float_def as_double_def)
      done
  next
    case False
    then show ?thesis
      by (subst ParseGenericEvent_loop.simps, subst ReadFields.simps) (simp add: rf)
  qed
qed

lemma ParseVarInt_loop_append:
  "ParseVarInt_loop xs shift val = Some (w, r) \<Longrightarrow>
   ParseVarInt_loop (xs @ ys) shift val = Some (w, r @ ys)"
  by (induction xs shift val rule: ParseVarInt_loop.induct)
     (auto simp: Let_def split: if_splits)

lemma ParseVarInt_append:
  "ParseVarInt xs = Some (w, r) \<Longrightarrow> ParseVarInt (xs @ ys) = Some (w, r @ ys)"
  unfolding ParseVarInt_def by (rule ParseVarInt_loop_append)

lemma invalid_Field_not_valid: "\<not> valid invalid_Field"
  by (simp add: valid_def invalid_Field_def)

lemma ReadField_append:
  assumes rf: "ReadField xs = (f, r)" and v: "valid f"
  shows "ReadField (xs @ ys) = (f, r @ ys)"
proof (cases "ParseVarInt xs")
  case None
  with rf have "f = invalid_Field" by (simp add: ReadField_def)
  with v show ?thesis by (simp add: invalid_Field_not_valid)
next
  case (Some a)
  obtain preamble pos where a: "a = (preamble, pos)" by (cases a)
  have tag: "ParseVarInt xs = Some (preamble, pos)" using Some a by simp
  have tag': "ParseVarInt (xs @ ys) = Some (preamble, pos @ ys)"
    by (rule ParseVarInt_append [OF tag])
  show ?thesis
  proof (cases "ParseVarInt pos")
    case None
    with rf v show ?thesis
      by (auto simp: ReadField_def tag tag' Let_def valid_def invalid_Field_def split: if_splits)
  next
    case (Some b)
    obtain w new_pos where b: "b = (w, new_pos)" by (cases b)
    have val: "ParseVarInt pos = Some (w, new_pos)" using Some b by simp
    have val': "ParseVarInt (pos @ ys) = Some (w, new_pos @ ys)"
      by (rule ParseVarInt_append [OF val])
    from rf v show ?thesis
      by (auto simp: ReadField_def tag tag' val val' Let_def valid_def invalid_Field_def
               split: if_splits)
  qed
qed

lemma ReadFields_append: "prefix (ReadFields xs) (ReadFields (xs @ ys))"
proof (induction xs rule: ReadFields.induct)
  case (1 decoder)
  obtain f decoder' where rf: "ReadField decoder = (f, decoder')" by (cases "ReadField decoder")
  show ?case
  proof (cases "valid f")
    case True
    from ReadField_append [OF rf True] "1.IH" [OF rf [symmetric] True]
    show ?thesis
      by (subst ReadFields.simps, subst (2) ReadFields.simps) (simp add: rf True)
  next
    case False
    then show ?thesis by (subst ReadFields.simps) (simp add: rf)
  qed
qed

text \<open>
  C4. \<^verbatim>\<open>ParseGenericEvent\<close> names and types every field the walker yields from
  its wire type alone, as the naming policy \<open>spec_Infer_field\<close> says (no name is cut
  by the 64-byte \<^verbatim>\<open>StackString\<close>), in the order of the fields, and the flat key of
  every call it makes equals the key.
\<close>

theorem ParseGenericEvent_infers_by_wire_type:
  "ParseGenericEvent cb = (OkStatus, map spec_Infer_field (ReadFields cb))
   \<and> list_all (\<lambda>c. flat_key (call_key c) = key (call_key c)) (snd (ParseGenericEvent cb))"
  by (simp add: ParseGenericEvent_def ParseGenericEvent_loop_eq list_all_iff
        spec_Infer_field_def unqualified_def split: ProtoWireType.splits)

text \<open>
  C7. \<^verbatim>\<open>ParseGenericEvent\<close> returns the success status on every span of bytes
  (the function is total: its loop ends on every input), and cutting a span short
  only ends the walk early: the calls made on the first \<open>n\<close> bytes of a span are
  the first of the calls made on the whole span.
\<close>

theorem ParseGenericEvent_always_ok:
  "fst (ParseGenericEvent cb) = OkStatus
   \<and> prefix (snd (ParseGenericEvent (take n cb))) (snd (ParseGenericEvent cb))"
proof -
  have "prefix (ReadFields (take n cb)) (ReadFields (take n cb @ drop n cb))"
    by (rule ReadFields_append)
  then show ?thesis
    by (simp add: ParseGenericEvent_def ParseGenericEvent_loop_eq map_mono_prefix)
qed

subsection \<open>Fan-out of a batch\<close>

lemma spec_timestamp_Nil [simp]: "spec_timestamp [] tR i = tR"
  by (simp add: spec_timestamp_def)

lemma spec_timestamp_Cons [simp]:
  "spec_timestamp (t # ts) tR 0 = t" "spec_timestamp (t # ts) tR (Suc i) = spec_timestamp ts tR i"
  by (simp_all add: spec_timestamp_def)

lemma TokenizePacket_loop_eq:
  "TokenizePacket_loop ps ts tR state c =
     (count_stats atom_timestamp_missing (length ps - length ts) c)
       \<lparr>sorter := sorter c @
          map (\<lambda>i. (spec_timestamp ts tR i, current_generation state,
                    forged_packet (ps ! i) (spec_timestamp ts tR i), machine_id c))
            [0..<length ps]\<rparr>"
proof (induction ps arbitrary: ts c)
  case Nil
  then show ?case by (simp add: count_stats_def)
next
  case (Cons p ps)
  show ?case
  proof (cases ts)
    case Nil
    then show ?thesis
      by (simp add: Cons.IH map_upt_Suc count_stats_def PushTracePacket_def
            context_IncrementStats_def IncrementStats_def forged_packet_def
          del: upt_Suc)
  next
    case (Cons t ts')
    then show ?thesis
      by (simp add: Cons.IH map_upt_Suc count_stats_def PushTracePacket_def forged_packet_def
          del: upt_Suc)
  qed
qed

text \<open>
  C2. On a packet of statsd atoms \<^verbatim>\<open>TokenizePacket\<close> is handled and pushes to the
  sorter one forged packet per payload, in the order of the payloads: payload \<open>i\<close>
  with explicit timestamp \<open>i\<close> while there is one and with the packet's timestamp
  otherwise, counting \<open>atom_timestamp_missing\<close> once per payload without an explicit
  timestamp. For payloads \<open>[p0, p1, p2]\<close>, explicit timestamps \<open>[t0, t1]\<close> and packet
  timestamp \<open>tR\<close> the sorter receives \<open>(p0, t0)\<close>, \<open>(p1, t1)\<close>, \<open>(p2, tR)\<close> in this
  order and the counter goes up by one.
\<close>

theorem TokenizePacket_fan_out:
  "TokenizePacket decoder tR state kStatsdAtomFieldNumber m =
     (Handled,
      m\<lparr>trace_context :=
          (count_stats atom_timestamp_missing
             (length (atom (StatsdAtom_Decoder decoder))
                - length (timestamp_nanos (StatsdAtom_Decoder decoder)))
             (trace_context m))
          \<lparr>sorter := sorter (trace_context m) @
             map (\<lambda>i. (spec_timestamp (timestamp_nanos (StatsdAtom_Decoder decoder)) tR i,
                       current_generation state,
                       forged_packet (atom (StatsdAtom_Decoder decoder) ! i)
                         (spec_timestamp (timestamp_nanos (StatsdAtom_Decoder decoder)) tR i),
                       machine_id (trace_context m)))
               [0..<length (atom (StatsdAtom_Decoder decoder))]\<rparr>\<rparr>)
   \<and> TokenizePacket
         \<lparr>timestamp = ts0, statsd_atom = Some \<lparr>atom = [p0, p1, p2], timestamp_nanos = [t0, t1]\<rparr>\<rparr>
         tR state kStatsdAtomFieldNumber m =
     (Handled,
      m\<lparr>trace_context :=
          (count_stats atom_timestamp_missing 1 (trace_context m))
          \<lparr>sorter := sorter (trace_context m) @
             [(t0, current_generation state, forged_packet p0 t0, machine_id (trace_context m)),
              (t1, current_generation state, forged_packet p1 t1, machine_id (trace_context m)),
              (tR, current_generation state, forged_packet p2 tR, machine_id (trace_context m))]\<rparr>\<rparr>)"
  by (simp add: TokenizePacket_def TokenizePacket_loop_eq StatsdAtom_Decoder_def Let_def
        upt_rec [of 0] upt_rec [of 1] upt_rec [of 2] spec_timestamp_def)

text \<open>
  C10. For a field other than the statsd atom field, \<^verbatim>\<open>TokenizePacket\<close> is ignored
  and \<^verbatim>\<open>ParseTracePacketData\<close> returns at once, and both leave the module and its
  context (sorter, counters, trackers, args, name cache, track set id) as they were.
\<close>

theorem not_statsd_field_no_effect:
  assumes "field_id \<noteq> kStatsdAtomFieldNumber"
  shows "TokenizePacket decoder packet_timestamp state field_id m = (Ignored, m)
     \<and> ParseTracePacketData decoder ts field_id m = Inr m"
  using assms by (simp add: TokenizePacket_def ParseTracePacketData_def)

theorem not_statsd_field_no_effect_witness:
  "(1 :: uint32) \<noteq> kStatsdAtomFieldNumber
   \<and> TokenizePacket \<lparr>timestamp = None, statsd_atom = None\<rparr> 0 \<lparr>current_generation = 0\<rparr> 1
         example_module = (Ignored, example_module)
   \<and> ParseTracePacketData \<lparr>timestamp = None, statsd_atom = None\<rparr> 0 1 example_module =
         Inr example_module"
proof -
  have h: "(1 :: uint32) \<noteq> kStatsdAtomFieldNumber" by (simp add: kStatsdAtomFieldNumber_def)
  from not_statsd_field_no_effect [OF h] h show ?thesis by simp
qed

subsection \<open>Interning and the inserter delegate\<close>

lemma find_string_None_iff: "find_string P s = None \<longleftrightarrow> s \<notin> set P"
  by (induction P) auto

lemma find_string_append_in: "s \<in> set P \<Longrightarrow> find_string (P @ Q) s = find_string P s"
  by (induction P) auto

lemma find_string_append_new: "s \<notin> set P \<Longrightarrow> find_string (P @ [s]) s = Some (length P)"
  by (induction P) auto

lemma string_id_append: "s \<in> set P \<Longrightarrow> string_id (P @ Q) s = string_id P s"
  by (simp add: string_id_def find_string_append_in)

lemma intern_pool_extends: "\<exists>Q. intern_pool s P = P @ Q"
  by (simp add: intern_pool_def)

lemma intern_pool_mem: "s \<in> set (intern_pool s P)"
  by (simp add: intern_pool_def)

lemma InternString_eq:
  "InternString s st =
     (string_id (intern_pool s (string_pool st)) s,
      st\<lparr>string_pool := intern_pool s (string_pool st)\<rparr>)"
proof (cases "find_string (string_pool st) s")
  case None
  then have "s \<notin> set (string_pool st)" by (simp add: find_string_None_iff)
  with None show ?thesis
    by (simp add: InternString_def intern_pool_def string_id_def find_string_append_new)
next
  case (Some i)
  then have "s \<in> set (string_pool st)"
    using find_string_None_iff [of "string_pool st" s] by auto
  with Some show ?thesis
    by (simp add: InternString_def intern_pool_def string_id_def)
qed

lemma context_InternString_eq:
  "context_InternString s c =
     (string_id (intern_pool s (string_pool (storage c))) s,
      with_pool (intern_pool s (string_pool (storage c))) c)"
  by (simp add: context_InternString_def InternString_eq with_pool_def)

lemma with_pool_simps [simp]:
  "string_pool (storage (with_pool P c)) = P"
  "stats (storage (with_pool P c)) = stats (storage c)"
  "sorter (with_pool P c) = sorter c"
  "async_track_set_tracker (with_pool P c) = async_track_set_tracker c"
  "slice_tracker (with_pool P c) = slice_tracker c"
  "args_tracker (with_pool P c) = args_tracker c"
  "machine_id (with_pool P c) = machine_id c"
  "with_pool P (with_pool P' c) = with_pool P c"
  by (simp_all add: with_pool_def)

lemma call_pool_extends: "\<exists>Q. call_pool c P = P @ Q"
proof -
  have "\<exists>Q. fold intern_pool ss P = P @ Q" for ss
  proof (induction ss arbitrary: P)
    case Nil
    then show ?case by simp
  next
    case (Cons s ss)
    obtain Q1 where "intern_pool s P = P @ Q1" using intern_pool_extends by blast
    moreover obtain Q2 where "fold intern_pool ss (intern_pool s P) = intern_pool s P @ Q2"
      using Cons.IH by blast
    ultimately show ?case by simp
  qed
  then show ?thesis by (simp add: call_pool_def)
qed

lemma string_id_intern2:
  "string_id (intern_pool t (intern_pool s P)) s = string_id (intern_pool s P) s"
proof -
  obtain Q where "intern_pool t (intern_pool s P) = intern_pool s P @ Q"
    using intern_pool_extends by blast
  then show ?thesis by (simp add: string_id_append intern_pool_mem)
qed

lemma string_id_intern3:
  "string_id (intern_pool u (intern_pool t (intern_pool s P))) s = string_id (intern_pool s P) s"
  by (metis string_id_intern2 intern_pool_extends intern_pool_mem string_id_append append.assoc)

lemma add_key_value_eq:
  "add_key_value sl k v c =
     (with_pool (intern_pool (key k) (intern_pool (flat_key k) (string_pool (storage c)))) c)
       \<lparr>args_tracker := args_tracker c @
          [(sl, string_id (intern_pool (key k) (intern_pool (flat_key k) (string_pool (storage c)))) (flat_key k),
            string_id (intern_pool (key k) (intern_pool (flat_key k) (string_pool (storage c)))) (key k), v)]\<rparr>"
  by (simp add: add_key_value_def context_InternString_eq AddArg_def string_id_intern2)

lemma add_key_string_eq:
  "add_key_string sl k s c =
     (with_pool (intern_pool s (intern_pool (key k) (intern_pool (flat_key k) (string_pool (storage c))))) c)
       \<lparr>args_tracker := args_tracker c @
          [(sl, string_id (intern_pool s (intern_pool (key k) (intern_pool (flat_key k) (string_pool (storage c))))) (flat_key k),
            string_id (intern_pool s (intern_pool (key k) (intern_pool (flat_key k) (string_pool (storage c))))) (key k),
            Variadic_String (string_id (intern_pool s (intern_pool (key k) (intern_pool (flat_key k) (string_pool (storage c))))) s))]\<rparr>"
  by (simp add: add_key_string_def context_InternString_eq AddArg_def string_id_intern2
        string_id_intern3)

lemma InserterDelegate_eq:
  "\<not> is_AddJson x \<Longrightarrow>
   InserterDelegate sl x c =
     Inr ((with_pool (call_pool x (string_pool (storage c))) c)
            \<lparr>args_tracker := args_tracker c @ [call_arg (call_pool x (string_pool (storage c))) sl x]\<rparr>)"
  by (cases x) (simp_all add: add_key_value_eq add_key_string_eq call_pool_def call_arg_def)

lemma InserterDelegate_AddJson:
  "is_AddJson x \<Longrightarrow> \<exists>e. InserterDelegate sl x c = Inl (Fatal e)"
  by (cases x) simp_all

lemma calls_pool_extends: "\<exists>Q. calls_pool xs P = P @ Q"
  unfolding calls_pool_def
proof (induction xs arbitrary: P)
  case Nil
  then show ?case by simp
next
  case (Cons x xs)
  obtain Q1 where "call_pool x P = P @ Q1" using call_pool_extends by blast
  moreover obtain Q2 where "fold call_pool xs (call_pool x P) = call_pool x P @ Q2"
    using Cons.IH by blast
  ultimately show ?case by simp
qed

lemma fold_intern_pool_mem: "s \<in> set ss \<or> s \<in> set P \<Longrightarrow> s \<in> set (fold intern_pool ss P)"
proof (induction ss arbitrary: P)
  case Nil
  then show ?case by simp
next
  case (Cons t ss)
  have "s \<in> set ss \<or> s \<in> set (intern_pool t P)"
    using Cons.prems by (auto simp: intern_pool_def)
  then show ?case using Cons.IH by simp
qed

lemma call_pool_strings: "set (call_strings x) \<subseteq> set (call_pool x P)"
  by (auto simp: call_pool_def intro: fold_intern_pool_mem)

lemma call_strings_key:
  "flat_key (call_key x) \<in> set (call_strings x)" "key (call_key x) \<in> set (call_strings x)"
  by (cases x; simp)+

lemma call_arg_append:
  assumes "set (call_strings x) \<subseteq> set P"
  shows "call_arg (P @ Q) sl x = call_arg P sl x"
proof -
  have "flat_key (call_key x) \<in> set P" "key (call_key x) \<in> set P"
    using assms call_strings_key by blast+
  moreover have "call_value (P @ Q) x = call_value P x"
    using assms by (cases x) (simp_all add: string_id_append)
  ultimately show ?thesis by (simp add: call_arg_def string_id_append)
qed

lemma snd_call_arg: "snd (call_arg P sl x) = snd (call_arg P sl' x)"
  by (simp add: call_arg_def)

lemma InserterDelegate_calls_eq:
  assumes "\<not> list_ex is_AddJson xs"
  shows "InserterDelegate_calls sl xs c =
     Inr ((with_pool (calls_pool xs (string_pool (storage c))) c)
            \<lparr>args_tracker := args_tracker c @
               map (call_arg (calls_pool xs (string_pool (storage c))) sl) xs\<rparr>)
     \<and> (\<forall>x \<in> set xs. set (call_strings x) \<subseteq> set (calls_pool xs (string_pool (storage c))))"
  using assms
proof (induction xs arbitrary: c)
  case Nil
  then show ?case by (simp add: calls_pool_def with_pool_def)
next
  case (Cons x xs)
  let ?P1 = "call_pool x (string_pool (storage c))"
  let ?c1 = "(with_pool ?P1 c)\<lparr>args_tracker := args_tracker c @ [call_arg ?P1 sl x]\<rparr>"
  let ?P2 = "calls_pool xs ?P1"
  have nj: "\<not> is_AddJson x" and njs: "\<not> list_ex is_AddJson xs" using Cons.prems by simp_all
  have step: "InserterDelegate sl x c = Inr ?c1" by (rule InserterDelegate_eq [OF nj])
  have pool1: "string_pool (storage ?c1) = ?P1" by simp
  have P2: "calls_pool (x # xs) (string_pool (storage c)) = ?P2" by (simp add: calls_pool_def)
  obtain Q where Q: "?P2 = ?P1 @ Q" using calls_pool_extends by blast
  have sub: "set (call_strings x) \<subseteq> set ?P1" by (rule call_pool_strings)
  have arg: "call_arg ?P2 sl x = call_arg ?P1 sl x"
    unfolding Q by (rule call_arg_append [OF sub])
  have ih: "InserterDelegate_calls sl xs ?c1 =
      Inr ((with_pool ?P2 ?c1)\<lparr>args_tracker := args_tracker ?c1 @ map (call_arg ?P2 sl) xs\<rparr>)
      \<and> (\<forall>y \<in> set xs. set (call_strings y) \<subseteq> set ?P2)"
    using Cons.IH [OF njs, of ?c1] unfolding pool1 .
  note ih1 = ih [THEN conjunct1] and ih2 = ih [THEN conjunct2]
  have "InserterDelegate_calls sl (x # xs) c =
      Inr ((with_pool ?P2 ?c1)\<lparr>args_tracker := args_tracker ?c1 @ map (call_arg ?P2 sl) xs\<rparr>)"
    by (simp add: step ih1)
  also have "(with_pool ?P2 ?c1)\<lparr>args_tracker := args_tracker ?c1 @ map (call_arg ?P2 sl) xs\<rparr> =
      (with_pool ?P2 c)\<lparr>args_tracker := args_tracker c @ map (call_arg ?P2 sl) (x # xs)\<rparr>"
    by (simp add: arg with_pool_def)
  finally have main: "InserterDelegate_calls sl (x # xs) c =
      Inr ((with_pool ?P2 c)\<lparr>args_tracker := args_tracker c @ map (call_arg ?P2 sl) (x # xs)\<rparr>)" .
  have "set (call_strings x) \<subseteq> set ?P2" using sub Q by auto
  with ih2 main show ?case by (simp add: P2)
qed

lemma InserterDelegate_calls_Inl:
  "InserterDelegate_calls sl xs c = Inl e \<Longrightarrow> \<exists>t. e = Fatal t"
proof (induction xs arbitrary: c)
  case Nil
  then show ?case by simp
next
  case (Cons x xs)
  show ?case
  proof (cases "is_AddJson x")
    case True
    then obtain t where "InserterDelegate sl x c = Inl (Fatal t)"
      using InserterDelegate_AddJson by blast
    with Cons.prems show ?thesis by auto
  next
    case False
    from InserterDelegate_eq [OF False, of sl c] Cons.prems Cons.IH show ?thesis by simp
  qed
qed

lemma InserterDelegate_calls_Inr:
  "InserterDelegate_calls sl xs c = Inr c' \<Longrightarrow> \<not> list_ex is_AddJson xs"
proof (induction xs arbitrary: c)
  case Nil
  then show ?case by simp
next
  case (Cons x xs)
  show ?case
  proof (cases "is_AddJson x")
    case True
    then obtain t where "InserterDelegate sl x c = Inl (Fatal t)"
      using InserterDelegate_AddJson by blast
    with Cons.prems show ?thesis by auto
  next
    case False
    from InserterDelegate_eq [OF False, of sl c] Cons.prems Cons.IH False show ?thesis by simp
  qed
qed

lemma spec_Infer_field_not_AddJson: "\<not> is_AddJson (spec_Infer_field f)"
  by (cases "Field_type f") (simp_all add: spec_Infer_field_def)

lemma ParseGenericEvent_no_AddJson: "\<not> list_ex is_AddJson (snd (ParseGenericEvent cb))"
  by (simp add: ParseGenericEvent_def ParseGenericEvent_loop_eq list_ex_iff
        spec_Infer_field_not_AddJson)

subsection \<open>What each step of a dispatch leaves unchanged\<close>

lemma module_InternString_frame:
  assumes "module_InternString s m = (i, m')"
  shows "pool m' = pool m" "args_parser m' = args_parser m" "atom_names m' = atom_names m"
    "track_set_id m' = track_set_id m"
    "stats (storage (trace_context m')) = stats (storage (trace_context m))"
    "sorter (trace_context m') = sorter (trace_context m)"
    "async_track_set_tracker (trace_context m') = async_track_set_tracker (trace_context m)"
    "slice_tracker (trace_context m') = slice_tracker (trace_context m)"
    "args_tracker (trace_context m') = args_tracker (trace_context m)"
    "machine_id (trace_context m') = machine_id (trace_context m)"
  using assms
  by (auto simp: module_InternString_def context_InternString_def InternString_def
           split: prod.splits option.splits)

lemma module_InternString_snd:
  "atom_names (snd (module_InternString s m)) = atom_names m"
  "pool (snd (module_InternString s m)) = pool m"
  using module_InternString_frame [of s m]
  by (cases "module_InternString s m"; simp)+

lemma module_InternString_pool:
  "module_InternString s m = (i, m') \<Longrightarrow> module_pool m' = intern_pool s (module_pool m)"
  by (auto simp: module_InternString_def context_InternString_eq module_pool_def)

lemma module_InternString_extends:
  "module_InternString s m = (i, m') \<Longrightarrow> \<exists>Q. module_pool m' = module_pool m @ Q"
  by (simp add: module_InternString_pool intern_pool_extends)

lemma module_IncrementStats_frame:
  "pool (module_IncrementStats k m) = pool m"
  "args_parser (module_IncrementStats k m) = args_parser m"
  "atom_names (module_IncrementStats k m) = atom_names m"
  "track_set_id (module_IncrementStats k m) = track_set_id m"
  "stats (storage (trace_context (module_IncrementStats k m))) =
     (stats (storage (trace_context m)))(k := stats (storage (trace_context m)) k + 1)"
  "string_pool (storage (trace_context (module_IncrementStats k m))) =
     string_pool (storage (trace_context m))"
  "sorter (trace_context (module_IncrementStats k m)) = sorter (trace_context m)"
  "async_track_set_tracker (trace_context (module_IncrementStats k m)) =
     async_track_set_tracker (trace_context m)"
  "slice_tracker (trace_context (module_IncrementStats k m)) = slice_tracker (trace_context m)"
  "args_tracker (trace_context (module_IncrementStats k m)) = args_tracker (trace_context m)"
  "machine_id (trace_context (module_IncrementStats k m)) = machine_id (trace_context m)"
  by (simp_all add: module_IncrementStats_def context_IncrementStats_def IncrementStats_def)

lemma count_unknown_frame:
  "pool (count_unknown c m) = pool m"
  "args_parser (count_unknown c m) = args_parser m"
  "atom_names (count_unknown c m) = atom_names m"
  "module_pool (count_unknown c m) = module_pool m"
  "module_args (count_unknown c m) = module_args m"
  by (simp_all add: count_unknown_def module_pool_def module_args_def module_IncrementStats_frame)

lemma unknown_count_count_unknown:
  "unknown_count (count_unknown c m) = unknown_count m + (if c then 1 else 0)"
  by (simp add: count_unknown_def unknown_count_def module_IncrementStats_frame)

lemma GetAtomName_frame:
  assumes "GetAtomName tag m = (n, m')"
  shows "pool m' = pool m" "args_parser m' = args_parser m"
    "track_set_id m' = track_set_id m"
    "sorter (trace_context m') = sorter (trace_context m)"
    "async_track_set_tracker (trace_context m') = async_track_set_tracker (trace_context m)"
    "slice_tracker (trace_context m') = slice_tracker (trace_context m)"
    "args_tracker (trace_context m') = args_tracker (trace_context m)"
    "machine_id (trace_context m') = machine_id (trace_context m)"
  using assms
  by (auto simp: GetAtomName_def module_IncrementStats_frame
           split: option.splits prod.splits dest: module_InternString_frame)

lemma GetAtomName_stats:
  assumes "GetAtomName tag m = (n, m')"
  shows "stats (storage (trace_context m')) =
     (if atom_names m tag = None \<and> descriptor (pool m) = None
      then (stats (storage (trace_context m)))
             (atom_unknown := stats (storage (trace_context m)) atom_unknown + 1)
      else stats (storage (trace_context m)))"
  using assms
  by (auto simp: GetAtomName_def module_IncrementStats_frame
           split: option.splits prod.splits dest: module_InternString_frame)

lemma GetAtomName_extends:
  assumes "GetAtomName tag m = (n, m')"
  shows "\<exists>Q. module_pool m' = module_pool m @ Q"
  using assms
  by (auto simp: GetAtomName_def module_pool_def module_IncrementStats_frame
           split: option.splits prod.splits
           dest!: module_InternString_extends)

lemma GetAtomName_hit: "atom_names m tag = Some n \<Longrightarrow> GetAtomName tag m = (n, m)"
  by (simp add: GetAtomName_def)

lemma GetAtomName_keeps:
  "atom_names m t = Some n \<Longrightarrow> atom_names (snd (GetAtomName tag m)) t = Some n"
  by (auto simp: GetAtomName_def module_IncrementStats_frame module_InternString_snd
           split: option.splits prod.splits dest: module_InternString_frame(3))

lemma GetAtomName_fills:
  "descriptor (pool m) \<noteq> None \<Longrightarrow>
   atom_names (snd (GetAtomName tag m)) tag = Some (fst (GetAtomName tag m))"
  by (auto simp: GetAtomName_def split: option.splits prod.splits)

lemma GetAtomName_unavailable:
  assumes "descriptor (pool m) = None"
  shows "atom_names (snd (GetAtomName tag m)) = atom_names m"
  using assms
  by (auto simp: GetAtomName_def module_IncrementStats_frame module_InternString_snd
           split: option.splits prod.splits dest: module_InternString_frame(3))

lemma InternAsyncTrackSetId_frame:
  assumes "InternAsyncTrackSetId m = (i, m')"
  shows "pool m' = pool m" "args_parser m' = args_parser m" "atom_names m' = atom_names m"
    "stats (storage (trace_context m')) = stats (storage (trace_context m))"
    "sorter (trace_context m') = sorter (trace_context m)"
    "slice_tracker (trace_context m') = slice_tracker (trace_context m)"
    "args_tracker (trace_context m') = args_tracker (trace_context m)"
    "machine_id (trace_context m') = machine_id (trace_context m)"
  using assms
  by (auto simp: InternAsyncTrackSetId_def AsyncTrackSetTracker_call_def
           split: option.splits prod.splits dest: module_InternString_frame)

lemma InternAsyncTrackSetId_extends:
  assumes "InternAsyncTrackSetId m = (i, m')"
  shows "\<exists>Q. module_pool m' = module_pool m @ Q"
  using assms
  by (auto simp: InternAsyncTrackSetId_def AsyncTrackSetTracker_call_def module_pool_def
           split: option.splits prod.splits
           dest!: module_InternString_extends)

lemma ParseAtom_open_scope_frame:
  assumes "ParseAtom_open_scope ts b m = (opt_slice, m3)"
  shows "pool m3 = pool m" "args_parser m3 = args_parser m"
    "module_args m3 = module_args m"
    "sorter (trace_context m3) = sorter (trace_context m)"
    "atom_names m3 = atom_names (snd (GetAtomName (first_field_id b) m))"
    "stats (storage (trace_context m3)) =
       stats (storage (trace_context (snd (GetAtomName (first_field_id b) m))))"
    "\<exists>Q. module_pool m3 = module_pool m @ Q"
proof -
  obtain atom_name m1 where nm: "GetAtomName (first_field_id b) m = (atom_name, m1)"
    by (cases "GetAtomName (first_field_id b) m")
  obtain track_set m2 where tset: "InternAsyncTrackSetId m1 = (track_set, m2)"
    by (cases "InternAsyncTrackSetId m1")
  obtain track at where tr: "AsyncTrackSetTracker_call (Scoped track_set ts 0)
      (async_track_set_tracker (trace_context m2)) = (track, at)"
    by (cases "AsyncTrackSetTracker_call (Scoped track_set ts 0)
      (async_track_set_tracker (trace_context m2))")
  obtain o' st where sc: "SliceTracker_Scoped ts track kNullStringId atom_name 0
      (slice_tracker (trace_context m2)) = (o', st)"
    by (cases "SliceTracker_Scoped ts track kNullStringId atom_name 0
      (slice_tracker (trace_context m2))")
  have m3: "m3 = m2\<lparr>trace_context :=
      (trace_context m2)\<lparr>async_track_set_tracker := at, slice_tracker := st\<rparr>\<rparr>"
    using assms by (simp add: ParseAtom_open_scope_def nm tset tr sc)
  note f1 = GetAtomName_frame [OF nm] and f2 = InternAsyncTrackSetId_frame [OF tset]
  show "pool m3 = pool m" "args_parser m3 = args_parser m" using f1 f2 by (simp_all add: m3)
  show "module_args m3 = module_args m" using f1 f2 by (simp add: m3 module_args_def)
  show "sorter (trace_context m3) = sorter (trace_context m)" using f1 f2 by (simp add: m3)
  show "atom_names m3 = atom_names (snd (GetAtomName (first_field_id b) m))"
    using f2 by (simp add: m3 nm)
  show "stats (storage (trace_context m3)) =
       stats (storage (trace_context (snd (GetAtomName (first_field_id b) m))))"
    using f2 by (simp add: m3 nm)
  obtain Q1 where "module_pool m1 = module_pool m @ Q1" using GetAtomName_extends [OF nm] by blast
  moreover obtain Q2 where "module_pool m2 = module_pool m1 @ Q2"
    using InternAsyncTrackSetId_extends [OF tset] by blast
  moreover have "module_pool m3 = module_pool m2" by (simp add: m3 module_pool_def)
  ultimately show "\<exists>Q. module_pool m3 = module_pool m @ Q" by simp
qed

subsection \<open>The cases of ParseAtom\<close>

lemma ParseAtom_steps:
  assumes nm: "GetAtomName (first_field_id b) m = (atom_name, m1)"
    and tset: "InternAsyncTrackSetId m1 = (track_set, m2)"
    and tr: "AsyncTrackSetTracker_call (Scoped track_set ts 0)
               (async_track_set_tracker (trace_context m2)) = (track, at)"
    and sc: "SliceTracker_Scoped ts track kNullStringId atom_name 0
               (slice_tracker (trace_context m2)) = (opt_slice, st)"
    and m3: "m3 = m2\<lparr>trace_context :=
                     (trace_context m2)\<lparr>async_track_set_tracker := at, slice_tracker := st\<rparr>\<rparr>"
  shows "opt_slice = None \<Longrightarrow> ParseAtom ts b m = Inr m3"
    and "opt_slice = Some sl \<Longrightarrow> descriptor (pool m) = None \<Longrightarrow>
           ParseAtom ts b m = Inl NullPointerDereference"
    and "opt_slice = Some sl \<Longrightarrow> descriptor (pool m) = Some d \<Longrightarrow>
         atom_calls d (args_parser m) b = (status, calls) \<Longrightarrow>
           ParseAtom ts b m =
             (case InserterDelegate_calls sl calls
                     (trace_context
                        (count_unknown (descriptor_fields d (first_field_id b) = None
                                          \<and> first_field_id b < 100000) m3)) of
                Inl e \<Rightarrow> Inl e
              | Inr c \<Rightarrow>
                  Inr (count_unknown (\<not> ok status)
                         ((count_unknown (descriptor_fields d (first_field_id b) = None
                                            \<and> first_field_id b < 100000) m3)
                            \<lparr>trace_context := c\<rparr>)))"
proof -
  obtain field rest where rf: "ReadField b = (field, rest)" by (cases "ReadField b")
  have tag: "first_field_id b = (if valid field then Field_id field else 0)"
    by (simp add: first_field_id_def rf)
  have pool3: "pool m2 = pool m" "args_parser m2 = args_parser m"
    using GetAtomName_frame [OF nm] InternAsyncTrackSetId_frame [OF tset] by simp_all
  note steps = nm [unfolded tag] tset tr sc
  show "opt_slice = None \<Longrightarrow> ParseAtom ts b m = Inr m3"
    by (simp add: ParseAtom_def rf steps m3 Let_def)
  show "opt_slice = Some sl \<Longrightarrow> descriptor (pool m) = None \<Longrightarrow>
           ParseAtom ts b m = Inl NullPointerDereference"
    by (simp add: ParseAtom_def rf steps m3 pool3 Let_def)
  show "opt_slice = Some sl \<Longrightarrow> descriptor (pool m) = Some d \<Longrightarrow>
         atom_calls d (args_parser m) b = (status, calls) \<Longrightarrow>
           ParseAtom ts b m =
             (case InserterDelegate_calls sl calls
                     (trace_context
                        (count_unknown (descriptor_fields d (first_field_id b) = None
                                          \<and> first_field_id b < 100000) m3)) of
                Inl e \<Rightarrow> Inl e
              | Inr c \<Rightarrow>
                  Inr (count_unknown (\<not> ok status)
                         ((count_unknown (descriptor_fields d (first_field_id b) = None
                                            \<and> first_field_id b < 100000) m3)
                            \<lparr>trace_context := c\<rparr>)))"
    by (cases "descriptor_fields d (if valid field then Field_id field else 0)")
       (auto simp: ParseAtom_def rf steps m3 pool3 Let_def atom_calls_def tag
          count_unknown_def split: sum.splits prod.splits)
qed

lemma ParseAtom_cases:
  assumes "ParseAtom_open_scope ts b m = (opt_slice, m3)"
  shows "opt_slice = None \<Longrightarrow> ParseAtom ts b m = Inr m3"
    and "opt_slice = Some sl \<Longrightarrow> descriptor (pool m) = None \<Longrightarrow>
           ParseAtom ts b m = Inl NullPointerDereference"
    and "opt_slice = Some sl \<Longrightarrow> descriptor (pool m) = Some d \<Longrightarrow>
         atom_calls d (args_parser m) b = (status, calls) \<Longrightarrow>
           ParseAtom ts b m =
             (case InserterDelegate_calls sl calls
                     (trace_context
                        (count_unknown (descriptor_fields d (first_field_id b) = None
                                          \<and> first_field_id b < 100000) m3)) of
                Inl e \<Rightarrow> Inl e
              | Inr c \<Rightarrow>
                  Inr (count_unknown (\<not> ok status)
                         ((count_unknown (descriptor_fields d (first_field_id b) = None
                                            \<and> first_field_id b < 100000) m3)
                            \<lparr>trace_context := c\<rparr>)))"
proof -
  obtain atom_name m1 where nm: "GetAtomName (first_field_id b) m = (atom_name, m1)"
    by (cases "GetAtomName (first_field_id b) m")
  obtain track_set m2 where tset: "InternAsyncTrackSetId m1 = (track_set, m2)"
    by (cases "InternAsyncTrackSetId m1")
  obtain track at where tr: "AsyncTrackSetTracker_call (Scoped track_set ts 0)
      (async_track_set_tracker (trace_context m2)) = (track, at)"
    by (cases "AsyncTrackSetTracker_call (Scoped track_set ts 0)
      (async_track_set_tracker (trace_context m2))")
  obtain o' st where sc': "SliceTracker_Scoped ts track kNullStringId atom_name 0
      (slice_tracker (trace_context m2)) = (o', st)"
    by (cases "SliceTracker_Scoped ts track kNullStringId atom_name 0
      (slice_tracker (trace_context m2))")
  have eq: "o' = opt_slice" "m3 = m2\<lparr>trace_context :=
      (trace_context m2)\<lparr>async_track_set_tracker := at, slice_tracker := st\<rparr>\<rparr>"
    using assms by (simp_all add: ParseAtom_open_scope_def nm tset tr sc')
  note sc = sc' [unfolded eq(1)]
  note steps = ParseAtom_steps [OF nm tset tr sc eq(2)]
  show "opt_slice = None \<Longrightarrow> ParseAtom ts b m = Inr m3" by (rule steps(1))
  show "opt_slice = Some sl \<Longrightarrow> descriptor (pool m) = None \<Longrightarrow>
           ParseAtom ts b m = Inl NullPointerDereference" by (rule steps(2))
  show "opt_slice = Some sl \<Longrightarrow> descriptor (pool m) = Some d \<Longrightarrow>
         atom_calls d (args_parser m) b = (status, calls) \<Longrightarrow>
           ParseAtom ts b m =
             (case InserterDelegate_calls sl calls
                     (trace_context
                        (count_unknown (descriptor_fields d (first_field_id b) = None
                                          \<and> first_field_id b < 100000) m3)) of
                Inl e \<Rightarrow> Inl e
              | Inr c \<Rightarrow>
                  Inr (count_unknown (\<not> ok status)
                         ((count_unknown (descriptor_fields d (first_field_id b) = None
                                            \<and> first_field_id b < 100000) m3)
                            \<lparr>trace_context := c\<rparr>)))" by (rule steps(3))
qed

lemma ParseAtom_decoded:
  assumes os: "ParseAtom_open_scope ts b m = (Some sl, m3)" and r: "ParseAtom ts b m = Inr m'"
  shows "\<exists>d status calls Q.
      descriptor (pool m) = Some d \<and> atom_calls d (args_parser m) b = (status, calls)
      \<and> module_pool m' = module_pool m @ Q
      \<and> module_args m' = module_args m @ map (call_arg (module_pool m') sl) calls
      \<and> (\<forall>x \<in> set calls. set (call_strings x) \<subseteq> set (module_pool m'))
      \<and> pool m' = pool m \<and> args_parser m' = args_parser m
      \<and> atom_names m' = atom_names m3"
proof -
  note fr = ParseAtom_open_scope_frame [OF os]
  obtain d where avail: "descriptor (pool m) = Some d"
    using ParseAtom_cases(2) [OF os refl] r by (cases "descriptor (pool m)") auto
  obtain status calls where ac: "atom_calls d (args_parser m) b = (status, calls)"
    by (cases "atom_calls d (args_parser m) b")
  let ?mc = "count_unknown (descriptor_fields d (first_field_id b) = None
                  \<and> first_field_id b < 100000) m3"
  note eq = ParseAtom_cases(3) [OF os refl avail ac]
  obtain c where del: "InserterDelegate_calls sl calls (trace_context ?mc) = Inr c"
    and m': "m' = count_unknown (\<not> ok status) (?mc\<lparr>trace_context := c\<rparr>)"
    using r unfolding eq by (cases "InserterDelegate_calls sl calls (trace_context ?mc)") auto
  have nj: "\<not> list_ex is_AddJson calls" by (rule InserterDelegate_calls_Inr [OF del])
  let ?P = "calls_pool calls (string_pool (storage (trace_context ?mc)))"
  have c: "c = (with_pool ?P (trace_context ?mc))
        \<lparr>args_tracker := args_tracker (trace_context ?mc) @ map (call_arg ?P sl) calls\<rparr>"
    and strs: "\<forall>x \<in> set calls. set (call_strings x) \<subseteq> set ?P"
    using InserterDelegate_calls_eq [OF nj, of sl "trace_context ?mc"] del by simp_all
  have pool': "module_pool m' = ?P"
    by (simp add: m' count_unknown_frame) (simp add: module_pool_def c)
  have args': "module_args m' = module_args m @ map (call_arg ?P sl) calls"
  proof -
    have "args_tracker (trace_context ?mc) = module_args m"
      using fr(3) count_unknown_frame(5) [of _ m3] by (simp add: module_args_def)
    then show ?thesis
      by (simp add: m' count_unknown_frame) (simp add: module_args_def c)
  qed
  obtain Q1 where Q1: "module_pool m3 = module_pool m @ Q1" using fr(7) by blast
  obtain Q2 where Q2: "?P = string_pool (storage (trace_context ?mc)) @ Q2"
    using calls_pool_extends by blast
  have "string_pool (storage (trace_context ?mc)) = module_pool m3"
    using count_unknown_frame(4) [of _ m3] by (simp add: module_pool_def)
  then have ext: "module_pool m' = module_pool m @ (Q1 @ Q2)"
    using pool' Q1 Q2 by simp
  have "pool m' = pool m" "args_parser m' = args_parser m" "atom_names m' = atom_names m3"
    using fr by (simp_all add: m' count_unknown_frame)
  with avail ac ext args' strs pool' show ?thesis by auto
qed

lemma ParseAtom_Inr_frame:
  assumes r: "ParseAtom ts b m = Inr m'"
  shows "pool m' = pool m" "args_parser m' = args_parser m"
    "atom_names m' = atom_names (snd (GetAtomName (first_field_id b) m))"
proof -
  obtain opt_slice m3 where os: "ParseAtom_open_scope ts b m = (opt_slice, m3)"
    by (cases "ParseAtom_open_scope ts b m")
  note fr = ParseAtom_open_scope_frame [OF os]
  have "pool m' = pool m \<and> args_parser m' = args_parser m \<and> atom_names m' = atom_names m3"
  proof (cases opt_slice)
    case None
    then have "m' = m3" using ParseAtom_cases(1) [OF os] r by simp
    then show ?thesis using fr by simp
  next
    case (Some sl)
    from ParseAtom_decoded [OF os [unfolded Some] r] show ?thesis by blast
  qed
  then show "pool m' = pool m" "args_parser m' = args_parser m"
    "atom_names m' = atom_names (snd (GetAtomName (first_field_id b) m))"
    using fr(5) by simp_all
qed

lemma ParseAtom_not_CheckFailed: "ParseAtom ts b m \<noteq> Inl CheckFailed"
proof -
  obtain opt_slice m3 where os: "ParseAtom_open_scope ts b m = (opt_slice, m3)"
    by (cases "ParseAtom_open_scope ts b m")
  show ?thesis
  proof (cases opt_slice)
    case None
    then show ?thesis using ParseAtom_cases(1) [OF os] by simp
  next
    case (Some sl)
    show ?thesis
    proof (cases "descriptor (pool m)")
      case None
      then show ?thesis using ParseAtom_cases(2) [OF os Some] by simp
    next
      case (Some d)
      obtain status calls where ac: "atom_calls d (args_parser m) b = (status, calls)"
        by (cases "atom_calls d (args_parser m) b")
      show ?thesis
        unfolding ParseAtom_cases(3) [OF os \<open>opt_slice = Some sl\<close> Some ac]
        by (auto split: sum.splits dest: InserterDelegate_calls_Inl)
    qed
  qed
qed

lemma ParseAtoms_frame:
  "ParseAtoms evs m = Inr m' \<Longrightarrow>
     pool m' = pool m \<and> (atom_names m t = Some n \<longrightarrow> atom_names m' t = Some n)"
proof (induction evs arbitrary: m)
  case Nil
  then show ?case by simp
next
  case (Cons ev evs)
  obtain ts b where ev: "ev = (ts, b)" by (cases ev)
  from Cons.prems obtain m1 where r: "ParseAtom ts b m = Inr m1"
    and rest: "ParseAtoms evs m1 = Inr m'"
    by (auto simp: ev split: sum.splits)
  from ParseAtom_Inr_frame [OF r] GetAtomName_keeps [of m t n "first_field_id b"]
    Cons.IH [OF rest]
  show ?case by simp
qed

lemma ParseAtom_unavailable:
  assumes un: "descriptor (pool m) = None" and emp: "atom_names m = Map.empty"
    and r: "ParseAtom ts b m = Inr m'"
  shows "descriptor (pool m') = None \<and> atom_names m' = Map.empty
     \<and> unknown_count m' = unknown_count m + 1"
proof -
  obtain opt_slice m3 where os: "ParseAtom_open_scope ts b m = (opt_slice, m3)"
    by (cases "ParseAtom_open_scope ts b m")
  obtain n m1 where nm: "GetAtomName (first_field_id b) m = (n, m1)"
    by (cases "GetAtomName (first_field_id b) m")
  note fr = ParseAtom_open_scope_frame [OF os]
  have none: "opt_slice = None"
    using ParseAtom_cases(2) [OF os _ un] r by (cases opt_slice) auto
  then have m': "m' = m3" using ParseAtom_cases(1) [OF os] r by simp
  have "unknown_count m3 = unknown_count m + 1"
    using fr(6) GetAtomName_stats [OF nm] un emp by (simp add: nm unknown_count_def)
  moreover have "atom_names m3 = Map.empty"
    using fr(5) GetAtomName_unavailable [OF un, of "first_field_id b"] emp by simp
  ultimately show ?thesis using fr(1) un by (simp add: m')
qed

lemma ParseAtoms_unavailable:
  "descriptor (pool m) = None \<Longrightarrow> atom_names m = Map.empty \<Longrightarrow> ParseAtoms evs m = Inr m' \<Longrightarrow>
     descriptor (pool m') = None \<and> atom_names m' = Map.empty
     \<and> unknown_count m' = unknown_count m + length evs"
proof (induction evs arbitrary: m)
  case Nil
  then show ?case by simp
next
  case (Cons ev evs)
  obtain ts b where ev: "ev = (ts, b)" by (cases ev)
  from Cons.prems(3) obtain m1 where r: "ParseAtom ts b m = Inr m1"
    and rest: "ParseAtoms evs m1 = Inr m'"
    by (auto simp: ev split: sum.splits)
  from ParseAtom_unavailable [OF Cons.prems(1,2) r] have
    1: "descriptor (pool m1) = None" "atom_names m1 = Map.empty"
      "unknown_count m1 = unknown_count m + 1"
    by simp_all
  from Cons.IH [OF 1(1,2) rest] 1(3) show ?case by simp
qed

lemma first_field_id_example: "first_field_id [0x08, 0x01] = 1"
  by (simp add: first_field_id_def ReadField_def ParseVarInt_def valid_def Let_def)

subsection \<open>Dispatch without a catalog\<close>

text \<open>
  C1. The claim: when the root type is absent from the catalog, a dispatch is not
  fatal, opens one scope named by the sentinel, counts \<open>atom_unknown\<close> once and
  decodes by generic inference. The code does not: \<^verbatim>\<open>GetAtomName\<close> tests the
  descriptor pointer, counts and returns the sentinel, but once the scope is open
  \<^verbatim>\<open>ParseAtom\<close> dereferences the pointer without the test. On the module whose
  catalog lacks the root type and whose slice tracker opens the scope, the dispatch of
  the payload \<open>08 01\<close> ends in the dereference of the null descriptor.
\<close>

theorem ParseAtom_null_descriptor:
  "descriptor (pool example_module_no_catalog) = None
   \<and> ParseAtom 7 [0x08, 0x01] example_module_no_catalog = Inl NullPointerDereference"
  by (simp add: run_defs)

subsection \<open>Counting unknown variants\<close>

text \<open>
  C3, as the code has it. With an available catalog and a payload whose tag the
  catalog does not resolve, the dispatch returns, and \<open>atom_unknown\<close> goes up by
  exactly one when the scope was opened and the tag is below 100000; it does not
  change when the tag is at or above 100000, nor when the scope could not be opened
  (the dispatch returns before it counts).
\<close>

theorem unknown_counted_when_scope_opens:
  assumes avail: "descriptor (pool m) = Some d"
    and unres: "descriptor_fields d (first_field_id b) = None"
  shows "\<exists>m'. ParseAtom ts b m = Inr m'
     \<and> unknown_count m' =
         unknown_count m +
           (if fst (ParseAtom_open_scope ts b m) \<noteq> None \<and> first_field_id b < 100000
            then 1 else 0)"
proof -
  obtain opt_slice m3 where os: "ParseAtom_open_scope ts b m = (opt_slice, m3)"
    by (cases "ParseAtom_open_scope ts b m")
  obtain n m1 where nm: "GetAtomName (first_field_id b) m = (n, m1)"
    by (cases "GetAtomName (first_field_id b) m")
  note fr = ParseAtom_open_scope_frame [OF os]
  have cnt3: "unknown_count m3 = unknown_count m"
    using fr(6) GetAtomName_stats [OF nm] avail by (simp add: nm unknown_count_def)
  show ?thesis
  proof (cases opt_slice)
    case None
    have "ParseAtom ts b m = Inr m3" by (rule ParseAtom_cases(1) [OF os None])
    then show ?thesis using cnt3 None by (simp add: os)
  next
    case (Some sl)
    let ?calls = "snd (ParseGenericEvent (as_bytes (fst (ReadField b))))"
    let ?mc = "count_unknown (descriptor_fields d (first_field_id b) = None
                  \<and> first_field_id b < 100000) m3"
    have ac: "atom_calls d (args_parser m) b = (OkStatus, ?calls)"
      by (simp add: atom_calls_def unres ParseGenericEvent_def)
    have nj: "\<not> list_ex is_AddJson ?calls" by (rule ParseGenericEvent_no_AddJson)
    let ?P = "calls_pool ?calls (string_pool (storage (trace_context ?mc)))"
    let ?c = "(with_pool ?P (trace_context ?mc))
        \<lparr>args_tracker := args_tracker (trace_context ?mc) @ map (call_arg ?P sl) ?calls\<rparr>"
    have del: "InserterDelegate_calls sl ?calls (trace_context ?mc) = Inr ?c"
      using InserterDelegate_calls_eq [OF nj] by blast
    have res: "ParseAtom ts b m = Inr (?mc\<lparr>trace_context := ?c\<rparr>)"
      by (subst ParseAtom_cases(3) [OF os Some avail ac], simp only: del sum.case)
         (simp add: ok_def count_unknown_def)
    have "unknown_count (?mc\<lparr>trace_context := ?c\<rparr>) = unknown_count ?mc"
      by (simp add: unknown_count_def)
    also have "\<dots> = unknown_count m + (if first_field_id b < 100000 then 1 else 0)"
      by (simp add: unknown_count_count_unknown cnt3 unres)
    finally show ?thesis using res Some by (simp add: os)
  qed
qed

text \<open>
  The claim C3 as stated, for every such payload, fails where the scope cannot be
  opened: the catalog is available, the tag 1 of the payload \<open>08 01\<close> is not
  resolvable and below 100000, and the counter is 0 before and after the dispatch.
\<close>

theorem unknown_not_counted_without_scope:
  "descriptor (pool example_module_no_scope) \<noteq> None
   \<and> \<not> resolvable example_module_no_scope (first_field_id [0x08, 0x01])
   \<and> first_field_id [0x08, 0x01] < 100000
   \<and> unknown_count example_module_no_scope = 0
   \<and> unknown_count_after (ParseAtom 7 [0x08, 0x01] example_module_no_scope) = Some 0"
  by (simp add: first_field_id_example resolvable_def unknown_count_after_def unknown_count_def
        run_defs)

theorem unknown_counted_when_scope_opens_witness:
  "\<exists>m'. ParseAtom 7 [0x08, 0x01] example_module = Inr m' \<and> unknown_count m' = 1"
proof -
  let ?d = "\<lparr>full_name = ''.android.os.statsd.Atom'',
             descriptor_fields = [42 \<mapsto> \<lparr>FieldDescriptor_name = ''Foo''\<rparr>]\<rparr>"
  have avail: "descriptor (pool example_module) = Some ?d"
    by (simp add: example_module_def StatsdModule_init_def PoolAndDescriptor_init_def
          example_descriptors_def kAtomProtoName_def)
  have unres: "descriptor_fields ?d (first_field_id [0x08, 0x01]) = None"
    by (simp add: first_field_id_example)
  have opened: "fst (ParseAtom_open_scope 7 [0x08, 0x01] example_module) \<noteq> None"
    by (simp add: ParseAtom_open_scope_def first_field_id_example run_defs)
  have zero: "unknown_count example_module = 0"
    by (simp add: unknown_count_def run_defs)
  from unknown_counted_when_scope_opens [OF avail unres, of 7] opened zero show ?thesis
    by (simp add: first_field_id_example)
qed

subsection \<open>The name cache\<close>

text \<open>
  C5. After a dispatch has resolved the tag of its payload with an available catalog,
  the name is in the cache, and after any further dispatches \<^verbatim>\<open>GetAtomName\<close> of
  this tag returns the same name and leaves the module as it is, whatever pool the
  module is given in place of its own: the catalog is not consulted. With an
  unavailable catalog and an empty cache, the cache is still empty after any
  dispatches that returned, each of them has counted \<open>atom_unknown\<close> once, and
  \<^verbatim>\<open>GetAtomName\<close> of any tag takes the path of the missing descriptor again: it
  counts and interns the sentinel.
\<close>

theorem name_cache_hit_and_unavailable:
  "(descriptor (pool m) \<noteq> None \<and> ParseAtom ts b m = Inr m1 \<and> ParseAtoms evs m1 = Inr m2 \<longrightarrow>
      atom_names m1 (first_field_id b) = Some (fst (GetAtomName (first_field_id b) m))
      \<and> GetAtomName (first_field_id b) (m2\<lparr>pool := p\<rparr>) =
          (fst (GetAtomName (first_field_id b) m), m2\<lparr>pool := p\<rparr>))
   \<and> (descriptor (pool m) = None \<and> atom_names m = Map.empty \<and> ParseAtoms evs m = Inr m2 \<longrightarrow>
        atom_names m2 = Map.empty
        \<and> unknown_count m2 = unknown_count m + length evs
        \<and> GetAtomName tag m2 =
            module_InternString ''Could not load atom descriptor''
              (module_IncrementStats atom_unknown m2))"
proof (intro conjI impI; (elim conjE)?)
  assume avail: "descriptor (pool m) \<noteq> None" and r: "ParseAtom ts b m = Inr m1"
    and rest: "ParseAtoms evs m1 = Inr m2"
  let ?n = "fst (GetAtomName (first_field_id b) m)"
  show 1: "atom_names m1 (first_field_id b) = Some ?n"
    using ParseAtom_Inr_frame(3) [OF r] GetAtomName_fills [OF avail] by simp
  then have "atom_names m2 (first_field_id b) = Some ?n"
    using ParseAtoms_frame [OF rest] by blast
  then have "atom_names (m2\<lparr>pool := p\<rparr>) (first_field_id b) = Some ?n" by simp
  then show "GetAtomName (first_field_id b) (m2\<lparr>pool := p\<rparr>) = (?n, m2\<lparr>pool := p\<rparr>)"
    by (rule GetAtomName_hit)
next
  assume un: "descriptor (pool m) = None" and emp: "atom_names m = Map.empty"
    and run: "ParseAtoms evs m = Inr m2"
  note inv = ParseAtoms_unavailable [OF un emp run]
  show "atom_names m2 = Map.empty" using inv by simp
  show "unknown_count m2 = unknown_count m + length evs" using inv by simp
  show "GetAtomName tag m2 =
      module_InternString ''Could not load atom descriptor''
        (module_IncrementStats atom_unknown m2)"
    using inv by (simp add: GetAtomName_def)
qed

theorem name_cache_hit_and_unavailable_witness:
  "fst (GetAtomName 42
         ((projr (ParseAtoms [(8, [0x08, 0x01])]
                    (projr (ParseAtom 7 [0xd2, 0x02, 0x00] example_module))))
            \<lparr>pool := PoolAndDescriptor_init [] kAtomProtoName\<rparr>)) =
     fst (GetAtomName 42 example_module)
   \<and> unknown_count
        (projr (ParseAtoms [(7, [0x08, 0x01]), (8, [0x08, 0x02])]
                  example_module_no_catalog_no_scope)) = 2"
proof -
  let ?b = "[0xd2, 0x02, 0x00] :: ConstBytes"
  let ?evs = "[(8, [0x08, 0x01])] :: (int64 \<times> ConstBytes) list"
  let ?evs' = "[(7, [0x08, 0x01]), (8, [0x08, 0x02])] :: (int64 \<times> ConstBytes) list"
  have tag: "first_field_id ?b = 42" by (simp add: eval_defs)
  have avail: "descriptor (pool example_module) \<noteq> None" by (simp add: eval_defs)
  have "\<exists>m1 m2. ParseAtom 7 ?b example_module = Inr m1 \<and> ParseAtoms ?evs m1 = Inr m2"
    by (simp add: eval_defs)
  then obtain m1 m2 where r1: "ParseAtom 7 ?b example_module = Inr m1"
    and r2: "ParseAtoms ?evs m1 = Inr m2" by blast
  have a: "GetAtomName (first_field_id ?b) (m2\<lparr>pool := PoolAndDescriptor_init [] kAtomProtoName\<rparr>) =
      (fst (GetAtomName (first_field_id ?b) example_module),
       m2\<lparr>pool := PoolAndDescriptor_init [] kAtomProtoName\<rparr>)"
    using name_cache_hit_and_unavailable [of example_module 7 ?b m1 ?evs m2] avail r1 r2 by blast
  have un: "descriptor (pool example_module_no_catalog_no_scope) = None"
    and emp: "atom_names example_module_no_catalog_no_scope = Map.empty"
    and zero: "unknown_count example_module_no_catalog_no_scope = 0"
    by (simp_all add: eval_defs)
  have "\<exists>m2'. ParseAtoms ?evs' example_module_no_catalog_no_scope = Inr m2'"
    by (simp add: eval_defs)
  then obtain m2' where r': "ParseAtoms ?evs' example_module_no_catalog_no_scope = Inr m2'"
    by blast
  have b: "unknown_count m2' = unknown_count example_module_no_catalog_no_scope + length ?evs'"
    using name_cache_hit_and_unavailable [of example_module_no_catalog_no_scope _ _ _ ?evs' m2'] un emp r' by blast
  show ?thesis
    apply (simp only: r1 r2 r' sum.sel)
    using a b zero apply (simp add: tag)
    done
qed

subsection \<open>One payload per forged packet\<close>

text \<open>
  C6. Every packet that \<^verbatim>\<open>TokenizePacket\<close> pushes to the sorter holds exactly one
  payload and the timestamp it is pushed with, and \<^verbatim>\<open>ParseTracePacketData\<close> on it
  never fails a \<^verbatim>\<open>PERFETTO_CHECK\<close>; on a packet with no payload the check fails,
  and on a packet with more than one payload the run is fatal.
\<close>

theorem fan_out_single_payload:
  "(\<forall>(ts, generation, pkt, machine) \<in>
       set (drop (length (sorter (trace_context m)))
              (sorter (trace_context
                 (snd (TokenizePacket decoder tR state kStatsdAtomFieldNumber m))))).
      (\<exists>p. atom (StatsdAtom_Decoder pkt) = [p]) \<and> timestamp pkt = Some ts
      \<and> ParseTracePacketData pkt ts kStatsdAtomFieldNumber m' \<noteq> Inl CheckFailed)
   \<and> (atom (StatsdAtom_Decoder d) = [] \<longrightarrow>
        ParseTracePacketData d ts' kStatsdAtomFieldNumber m' = Inl CheckFailed)
   \<and> (1 < length (atom (StatsdAtom_Decoder d)) \<longrightarrow>
        (\<exists>e. ParseTracePacketData d ts' kStatsdAtomFieldNumber m' = Inl e))"
proof (intro conjI impI)
  have parse: "ParseTracePacketData (forged_packet p t) t kStatsdAtomFieldNumber m' \<noteq> Inl CheckFailed"
    for p t
    using ParseAtom_not_CheckFailed [of t p m']
    by (auto simp: ParseTracePacketData_def forged_packet_def StatsdAtom_Decoder_def
             split: sum.splits)
  show "\<forall>(ts, generation, pkt, machine) \<in>
       set (drop (length (sorter (trace_context m)))
              (sorter (trace_context
                 (snd (TokenizePacket decoder tR state kStatsdAtomFieldNumber m))))).
      (\<exists>p. atom (StatsdAtom_Decoder pkt) = [p]) \<and> timestamp pkt = Some ts
      \<and> ParseTracePacketData pkt ts kStatsdAtomFieldNumber m' \<noteq> Inl CheckFailed"
    using parse
    by (auto simp: TokenizePacket_def TokenizePacket_loop_eq Let_def count_stats_def)
       (simp_all add: forged_packet_def StatsdAtom_Decoder_def)
next
  assume "atom (StatsdAtom_Decoder d) = []"
  then show "ParseTracePacketData d ts' kStatsdAtomFieldNumber m' = Inl CheckFailed"
    by (simp add: ParseTracePacketData_def)
next
  assume "1 < length (atom (StatsdAtom_Decoder d))"
  then obtain a a' rest where "atom (StatsdAtom_Decoder d) = a # a' # rest"
    by (cases "atom (StatsdAtom_Decoder d)"; cases "tl (atom (StatsdAtom_Decoder d))") auto
  then show "\<exists>e. ParseTracePacketData d ts' kStatsdAtomFieldNumber m' = Inl e"
    by (simp add: ParseTracePacketData_def split: sum.splits)
qed

theorem fan_out_single_payload_witness:
  "ParseTracePacketData (forged_packet [0x08, 0x01] 5) 5 kStatsdAtomFieldNumber example_module \<noteq>
     Inl CheckFailed
   \<and> ParseTracePacketData \<lparr>timestamp = None, statsd_atom = None\<rparr> 5 kStatsdAtomFieldNumber
        example_module = Inl CheckFailed
   \<and> (\<exists>e. ParseTracePacketData
              \<lparr>timestamp = None,
                 statsd_atom = Some \<lparr>atom = [[0x08, 0x01], [0x08, 0x02]], timestamp_nanos = []\<rparr>\<rparr>
              5 kStatsdAtomFieldNumber example_module = Inl e)"
proof -
  let ?decoder = "\<lparr>timestamp = None,
      statsd_atom = Some \<lparr>atom = [[0x08, 0x01]], timestamp_nanos = [5]\<rparr>\<rparr> :: TracePacket"
  let ?state = "\<lparr>current_generation = 0\<rparr>"
  let ?none = "\<lparr>timestamp = None, statsd_atom = None\<rparr> :: TracePacket"
  let ?two = "\<lparr>timestamp = None,
      statsd_atom = Some \<lparr>atom = [[0x08, 0x01], [0x08, 0x02]], timestamp_nanos = []\<rparr>\<rparr> :: TracePacket"
  have mem: "(5, 0, forged_packet [0x08, 0x01] 5, None) \<in>
      set (drop (length (sorter (trace_context example_module)))
             (sorter (trace_context
                (snd (TokenizePacket ?decoder 6 ?state kStatsdAtomFieldNumber example_module)))))"
    by (simp add: TokenizePacket_def StatsdAtom_Decoder_def PushTracePacket_def forged_packet_def
          example_module_def StatsdModule_init_def example_context_def)
  have e0: "atom (StatsdAtom_Decoder ?none) = []" by (simp add: StatsdAtom_Decoder_def)
  have e2: "1 < length (atom (StatsdAtom_Decoder ?two))" by (simp add: StatsdAtom_Decoder_def)
  from fan_out_single_payload [of example_module ?decoder 6 ?state example_module ?none 5] mem e0
  have "ParseTracePacketData (forged_packet [0x08, 0x01] 5) 5 kStatsdAtomFieldNumber
          example_module \<noteq> Inl CheckFailed"
    and "ParseTracePacketData ?none 5 kStatsdAtomFieldNumber example_module = Inl CheckFailed"
    by blast+
  moreover from fan_out_single_payload [of example_module ?decoder 6 ?state example_module ?two 5] e2
  have "\<exists>e. ParseTracePacketData ?two 5 kStatsdAtomFieldNumber example_module = Inl e"
    by blast
  ultimately show ?thesis by blast
qed

subsection \<open>Scope not opened\<close>

text \<open>
  C8. When the slice tracker does not open the scope, \<^verbatim>\<open>ParseAtom\<close> returns (it
  does not halt) with the module as it was when the scope was asked for: no arg has
  been added, and the counters are those that the resolution of the name has left,
  which with an available catalog are the counters before the dispatch.
\<close>

theorem scope_absent_drops_event:
  assumes "fst (ParseAtom_open_scope ts b m) = None"
  shows "ParseAtom ts b m = Inr (snd (ParseAtom_open_scope ts b m))
     \<and> module_args (snd (ParseAtom_open_scope ts b m)) = module_args m
     \<and> stats (storage (trace_context (snd (ParseAtom_open_scope ts b m)))) =
         stats (storage (trace_context (snd (GetAtomName (first_field_id b) m))))
     \<and> (descriptor (pool m) \<noteq> None \<longrightarrow>
          stats (storage (trace_context (snd (ParseAtom_open_scope ts b m)))) =
          stats (storage (trace_context m)))"
proof -
  obtain m3 where os: "ParseAtom_open_scope ts b m = (None, m3)"
    using assms by (cases "ParseAtom_open_scope ts b m") simp
  obtain n m1 where nm: "GetAtomName (first_field_id b) m = (n, m1)"
    by (cases "GetAtomName (first_field_id b) m")
  note fr = ParseAtom_open_scope_frame [OF os]
  have "ParseAtom ts b m = Inr m3" by (rule ParseAtom_cases(1) [OF os refl])
  moreover have "descriptor (pool m) \<noteq> None \<longrightarrow>
      stats (storage (trace_context m3)) = stats (storage (trace_context m))"
    using fr(6) GetAtomName_stats [OF nm] by (simp add: nm)
  ultimately show ?thesis using fr by (simp add: os)
qed

theorem scope_absent_drops_event_witness:
  "ParseAtom 7 [0x08, 0x01] example_module_no_scope =
     Inr (snd (ParseAtom_open_scope 7 [0x08, 0x01] example_module_no_scope))
   \<and> module_args (snd (ParseAtom_open_scope 7 [0x08, 0x01] example_module_no_scope)) = []
   \<and> unknown_count (snd (ParseAtom_open_scope 7 [0x08, 0x01] example_module_no_scope)) = 0"
proof -
  have h: "fst (ParseAtom_open_scope 7 [0x08, 0x01] example_module_no_scope) = None"
    by (simp add: eval_defs)
  have a: "module_args example_module_no_scope = []"
    and s: "stats (storage (trace_context example_module_no_scope)) atom_unknown = 0"
    and d: "descriptor (pool example_module_no_scope) \<noteq> None"
    by (simp_all add: eval_defs)
  note c8 = scope_absent_drops_event [OF h]
  have 1: "ParseAtom 7 [0x08, 0x01] example_module_no_scope =
      Inr (snd (ParseAtom_open_scope 7 [0x08, 0x01] example_module_no_scope))"
    using c8 by blast
  have 2: "module_args (snd (ParseAtom_open_scope 7 [0x08, 0x01] example_module_no_scope)) =
      module_args example_module_no_scope"
    using c8 by blast
  have 3: "stats (storage (trace_context
        (snd (ParseAtom_open_scope 7 [0x08, 0x01] example_module_no_scope)))) =
      stats (storage (trace_context example_module_no_scope))"
    using c8 d by blast
  show ?thesis using 1 by (simp only: 2 a 3 s unknown_count_def simp_thms)
qed

subsection \<open>Determinism\<close>

text \<open>
  C9. Two dispatches of the same payload, one after the other on the same module
  (hence against the same catalog and args parser), that both open their scope and
  return, add the same attributes in the same order: the same ids of flat key and
  key and the same values, in either decoder. The ids mean the same strings both
  times, since the pool after the second dispatch extends the pool after the first.
\<close>

theorem decode_deterministic:
  assumes r1: "ParseAtom ts b m = Inr m1" and r2: "ParseAtom ts' b m1 = Inr m2"
    and o1: "fst (ParseAtom_open_scope ts b m) \<noteq> None"
    and o2: "fst (ParseAtom_open_scope ts' b m1) \<noteq> None"
  shows "attributes_since m1 m2 = attributes_since m m1
     \<and> (\<exists>Q. module_pool m2 = module_pool m1 @ Q)"
proof -
  obtain sl1 m3 where os1: "ParseAtom_open_scope ts b m = (Some sl1, m3)"
    using o1 by (cases "ParseAtom_open_scope ts b m") auto
  obtain sl2 m3' where os2: "ParseAtom_open_scope ts' b m1 = (Some sl2, m3')"
    using o2 by (cases "ParseAtom_open_scope ts' b m1") auto
  from ParseAtom_decoded [OF os1 r1] obtain d status calls Q where
    d: "descriptor (pool m) = Some d" and ac: "atom_calls d (args_parser m) b = (status, calls)"
    and args1: "module_args m1 = module_args m @ map (call_arg (module_pool m1) sl1) calls"
    and strs: "\<forall>x \<in> set calls. set (call_strings x) \<subseteq> set (module_pool m1)"
    and same: "pool m1 = pool m" "args_parser m1 = args_parser m"
    by blast
  from ParseAtom_decoded [OF os2 r2] obtain d' status' calls' Q' where
    d': "descriptor (pool m1) = Some d'"
    and ac': "atom_calls d' (args_parser m1) b = (status', calls')"
    and ext: "module_pool m2 = module_pool m1 @ Q'"
    and args2: "module_args m2 = module_args m1 @ map (call_arg (module_pool m2) sl2) calls'"
    by blast
  have "d' = d" using d d' same by simp
  then have calls: "calls' = calls" using ac ac' same by simp
  have "map snd (map (call_arg (module_pool m2) sl2) calls) =
        map snd (map (call_arg (module_pool m1) sl1) calls)"
  proof (simp, intro ballI)
    fix x assume "x \<in> set calls"
    then have "set (call_strings x) \<subseteq> set (module_pool m1)" using strs by blast
    then have "call_arg (module_pool m2) sl2 x = call_arg (module_pool m1) sl2 x"
      unfolding ext by (rule call_arg_append)
    then show "snd (call_arg (module_pool m2) sl2 x) = snd (call_arg (module_pool m1) sl1 x)"
      using snd_call_arg [of "module_pool m1" sl2 x sl1] by simp
  qed
  then have "attributes_since m1 m2 = attributes_since m m1"
    by (simp add: attributes_since_def args1 args2 calls)
  with ext show ?thesis by blast
qed

theorem decode_deterministic_witness:
  "attributes_since
     (projr (ParseAtom 7 [0x0a, 0x02, 0x08, 0x05] example_module))
     (projr (ParseAtom 9 [0x0a, 0x02, 0x08, 0x05]
        (projr (ParseAtom 7 [0x0a, 0x02, 0x08, 0x05] example_module)))) =
   attributes_since example_module (projr (ParseAtom 7 [0x0a, 0x02, 0x08, 0x05] example_module))
   \<and> attributes_since example_module
        (projr (ParseAtom 7 [0x0a, 0x02, 0x08, 0x05] example_module)) =
      [(3, 3, Variadic_Integer 5)]"
proof -
  let ?b = "[0x0a, 0x02, 0x08, 0x05] :: ConstBytes"
  have "\<exists>m1. ParseAtom 7 ?b example_module = Inr m1
       \<and> fst (ParseAtom_open_scope 7 ?b example_module) \<noteq> None
       \<and> attributes_since example_module m1 = [(3, 3, Variadic_Integer 5)]
       \<and> (\<exists>m2. ParseAtom 9 ?b m1 = Inr m2 \<and> fst (ParseAtom_open_scope 9 ?b m1) \<noteq> None)"
    by (simp add: eval_defs)
  then obtain m1 m2 where r1: "ParseAtom 7 ?b example_module = Inr m1"
    and o1: "fst (ParseAtom_open_scope 7 ?b example_module) \<noteq> None"
    and at: "attributes_since example_module m1 = [(3, 3, Variadic_Integer 5)]"
    and r2: "ParseAtom 9 ?b m1 = Inr m2"
    and o2: "fst (ParseAtom_open_scope 9 ?b m1) \<noteq> None"
    by blast
  from decode_deterministic [OF r1 r2 o1 o2] at show ?thesis by (simp add: r1 r2)
qed

end
